theory Spec2Isabelle
  imports Main
begin

section \<open>Python values and exceptions\<close>

text \<open>
  The client returns raw JSON and the flattening step reads it with \<^verbatim>\<open>.get\<close>, iteration,
  \<^verbatim>\<open>in\<close> and indexing, all typed \<^verbatim>\<open>Any\<close>. A value is therefore one of the Python
  objects a JSON document decodes to. A dict is an association list read with \<open>map_of\<close>
  (first binding of a key). Numbers are integers. A \<open>string\<close> is a list of 8-bit
  characters, which is what an HTTP header value is once decoded as Latin-1.
\<close>

datatype pyval =
    PNone
  | PBool bool
  | PInt int
  | PStr string
  | PList "pyval list"
  | PDict "(string \<times> pyval) list"

text \<open>
  Every exception the modelled code can raise. The three \<^verbatim>\<open>AmadeusAuthError\<close> messages and
  the two \<^verbatim>\<open>RuntimeError\<close> messages of the client are kept apart, with the values their
  f-strings interpolate. \<open>TransportError\<close> is whatever the HTTP session itself raises.
\<close>

datatype error =
    AuthRequestFailed int string
  | AuthFailedAfterRetries
  | MissingAccessToken pyval
  | AmadeusRateLimitError
  | GetFailed string int string
  | GetFailedAfterRetries string
  | ValueError
  | TypeError
  | AttributeError
  | KeyError
  | JSONDecodeError
  | TransportError

fun is_AmadeusAuthError :: "error \<Rightarrow> bool" where
  "is_AmadeusAuthError (AuthRequestFailed s t) = True"
| "is_AmadeusAuthError AuthFailedAfterRetries = True"
| "is_AmadeusAuthError (MissingAccessToken d) = True"
| "is_AmadeusAuthError e = False"

fun is_RuntimeError :: "error \<Rightarrow> bool" where
  "is_RuntimeError (GetFailed u s t) = True"
| "is_RuntimeError (GetFailedAfterRetries u) = True"
| "is_RuntimeError e = False"

definition bind_e :: "error + 'a \<Rightarrow> ('a \<Rightarrow> error + 'b) \<Rightarrow> error + 'b" where
  "bind_e m f = (case m of Inl e \<Rightarrow> Inl e | Inr x \<Rightarrow> f x)"

text \<open>Truth value of an object, as \<^verbatim>\<open>if x:\<close> and \<^verbatim>\<open>not x\<close> take it.\<close>

fun truthy :: "pyval \<Rightarrow> bool" where
  "truthy PNone = False"
| "truthy (PBool b) = b"
| "truthy (PInt i) = (i \<noteq> 0)"
| "truthy (PStr s) = (s \<noteq> [])"
| "truthy (PList xs) = (xs \<noteq> [])"
| "truthy (PDict kvs) = (kvs \<noteq> [])"

text \<open>\<^verbatim>\<open>x.get(key, default)\<close>: only a dict has the method.\<close>

fun py_get :: "pyval \<Rightarrow> string \<Rightarrow> pyval \<Rightarrow> error + pyval" where
  "py_get (PDict kvs) k dflt = Inr (case map_of kvs k of None \<Rightarrow> dflt | Some v \<Rightarrow> v)"
| "py_get x k dflt = Inl AttributeError"

text \<open>\<^verbatim>\<open>for y in x\<close>: a list gives its items, a dict its keys, a string its characters.\<close>

fun py_iter :: "pyval \<Rightarrow> error + pyval list" where
  "py_iter (PList xs) = Inr xs"
| "py_iter (PDict kvs) = Inr (map (\<lambda>kv. PStr (fst kv)) kvs)"
| "py_iter (PStr s) = Inr (map (\<lambda>c. PStr [c]) s)"
| "py_iter x = Inl TypeError"

fun is_infix :: "'a list \<Rightarrow> 'a list \<Rightarrow> bool" where
  "is_infix xs [] = (xs = [])"
| "is_infix xs (y # ys) = (take (length xs) (y # ys) = xs \<or> is_infix xs ys)"

text \<open>\<^verbatim>\<open>key in x\<close> for a string key: key of a dict, item of a list, substring of a string.\<close>

fun py_contains :: "string \<Rightarrow> pyval \<Rightarrow> error + bool" where
  "py_contains k (PDict kvs) = Inr (map_of kvs k \<noteq> None)"
| "py_contains k (PList xs) = Inr (PStr k \<in> set xs)"
| "py_contains k (PStr s) = Inr (is_infix k s)"
| "py_contains k x = Inl TypeError"

text \<open>\<^verbatim>\<open>x[key]\<close> for a string key.\<close>

fun py_getitem :: "pyval \<Rightarrow> string \<Rightarrow> error + pyval" where
  "py_getitem (PDict kvs) k = (case map_of kvs k of None \<Rightarrow> Inl KeyError | Some v \<Rightarrow> Inr v)"
| "py_getitem x k = Inl TypeError"

section \<open>Decimal strings and calendar dates\<close>

definition is_ascii_digit :: "char \<Rightarrow> bool" where
  "is_ascii_digit c = (48 \<le> (of_char c :: nat) \<and> (of_char c :: nat) \<le> 57)"

definition digit_value :: "char \<Rightarrow> nat" where
  "digit_value c = of_char c - 48"

text \<open>
  \<^verbatim>\<open>int(s)\<close> on a string that holds neither sign, blank nor underscore: the decimal value
  when every character is one of 0..9 and there are at most 4300 of them (the limit of
  Python 3.11 on the length of a decimal string), \<^verbatim>\<open>ValueError\<close> (here \<open>None\<close>) otherwise.
\<close>

definition parse_decimal :: "string \<Rightarrow> nat option" where
  "parse_decimal s =
     (if s \<noteq> [] \<and> list_all is_ascii_digit s \<and> length s \<le> 4300
      then Some (foldl (\<lambda>n c. 10 * n + digit_value c) 0 s)
      else None)"

definition is_leap :: "nat \<Rightarrow> bool" where
  "is_leap y = (y mod 4 = 0 \<and> (y mod 100 \<noteq> 0 \<or> y mod 400 = 0))"

definition days_in_month :: "nat \<Rightarrow> nat \<Rightarrow> nat" where
  "days_in_month y m =
     (if m = 2 then (if is_leap y then 29 else 28)
      else if m = 4 \<or> m = 6 \<or> m = 9 \<or> m = 11 then 30 else 31)"

definition days_before_year :: "nat \<Rightarrow> nat" where
  "days_before_year y = (y - 1) * 365 + (y - 1) div 4 - (y - 1) div 100 + (y - 1) div 400"

definition days_before_month :: "nat \<Rightarrow> nat \<Rightarrow> nat" where
  "days_before_month y m =
     [0, 0, 31, 59, 90, 120, 151, 181, 212, 243, 273, 304, 334] ! m
       + (if 2 < m \<and> is_leap y then 1 else 0)"

record date =
  year :: nat
  month :: nat
  day :: nat

text \<open>
  \<^verbatim>\<open>ymd_to_ord\<close> of the C implementation of \<^verbatim>\<open>datetime\<close>: the ordinal of a day, 1 for
  0001-01-01 in the proleptic Gregorian calendar.
\<close>

definition ymd_to_ord :: "nat \<Rightarrow> nat \<Rightarrow> nat \<Rightarrow> nat" where
  "ymd_to_ord y m d = days_before_year y + days_before_month y m + d"

text \<open>\<^verbatim>\<open>date.toordinal()\<close>.\<close>

definition toordinal :: "date \<Rightarrow> int" where
  "toordinal d = int (days_before_year (year d) + days_before_month (year d) (month d) + day d)"

text \<open>
  \<^verbatim>\<open>ord_to_ymd\<close>: the year, month and day of an ordinal that is at least 1, by the cycles of
  400, 100, 4 and 1 years; \<^verbatim>\<open>(n + 50) >> 5\<close> estimates the month.
\<close>

definition ord_to_ymd :: "nat \<Rightarrow> nat \<times> nat \<times> nat" where
  "ord_to_ymd ordinal =
     (let n0 = ordinal - 1;
          n400 = n0 div 146097; na = n0 mod 146097;
          n100 = na div 36524; nb = na mod 36524;
          n4 = nb div 1461; nc = nb mod 1461;
          n1 = nc div 365; n = nc mod 365;
          y = n400 * 400 + 1 + n100 * 100 + n4 * 4 + n1
      in if n1 = 4 \<or> n100 = 4 then (y - 1, 12, 31)
         else
           (let leapyear = (n1 = 3 \<and> (n4 \<noteq> 24 \<or> n100 = 3));
                m = (n + 50) div 32;
                preceding = [0, 0, 31, 59, 90, 120, 151, 181, 212, 243, 273, 304, 334] ! m
                              + (if 2 < m \<and> leapyear then 1 else 0)
            in if n < preceding
               then (y, m - 1, n - (preceding - days_in_month y (m - 1)) + 1)
               else (y, m, n - preceding + 1)))"

text \<open>\<^verbatim>\<open>weekday\<close>: 0 for a Monday.\<close>

definition weekday :: "nat \<Rightarrow> nat \<Rightarrow> nat \<Rightarrow> nat" where
  "weekday y m d = (ymd_to_ord y m d + 6) mod 7"

text \<open>\<^verbatim>\<open>iso_week1_monday\<close>: the ordinal of the Monday that starts ISO week 1 of a year.\<close>

definition iso_week1_monday :: "nat \<Rightarrow> nat" where
  "iso_week1_monday y =
     (let first_day = ymd_to_ord y 1 1;
          first_weekday = (first_day + 6) mod 7;
          week1_monday = first_day - first_weekday
      in if 3 < first_weekday then week1_monday + 7 else week1_monday)"

text \<open>
  \<^verbatim>\<open>iso_to_ymd\<close>: the calendar date of an ISO year, week and day; \<open>None\<close> is a nonzero return
  code. Week 53 exists in the years that start on a Thursday and in the leap years that
  start on a Wednesday. For the ISO year 0000 the C code computes with ordinals below 1,
  and the year, month and day it then builds never pass the range check of the constructor:
  that case is the first branch here.
\<close>

definition iso_to_ymd :: "nat \<Rightarrow> nat \<Rightarrow> nat \<Rightarrow> (nat \<times> nat \<times> nat) option" where
  "iso_to_ymd iso_year iso_week iso_day =
     (if iso_year = 0 then None
      else if (iso_week = 0 \<or> 53 \<le> iso_week) \<and>
              \<not> (iso_week = 53 \<and>
                  (weekday iso_year 1 1 = 3 \<or> (weekday iso_year 1 1 = 2 \<and> is_leap iso_year)))
      then None
      else if iso_day = 0 \<or> 8 \<le> iso_day then None
      else Some (ord_to_ymd (iso_week1_monday iso_year + ((iso_week - 1) * 7 + iso_day - 1))))"

text \<open>
  The string as the C code reads it: its UTF-8 bytes (a character above 127 takes two),
  closed by a zero byte, so that reading at the end gives 0.
\<close>

definition utf8 :: "string \<Rightarrow> nat list" where
  "utf8 s =
     concat (map (\<lambda>c. if (of_char c :: nat) < 128 then [of_char c]
                       else [192 + of_char c div 64, 128 + of_char c mod 64]) s)"

definition byte_at :: "nat list \<Rightarrow> nat \<Rightarrow> nat" where
  "byte_at bs p = (if p < length bs then bs ! p else 0)"

text \<open>
  \<^verbatim>\<open>parse_digits(ptr, var, num_digits)\<close>: reads that many decimal digits (bytes 48 to 57)
  from position \<open>p\<close> and returns the value with the position after them.
\<close>

fun parse_digits :: "nat list \<Rightarrow> nat \<Rightarrow> nat \<Rightarrow> nat \<Rightarrow> (nat \<times> nat) option" where
  "parse_digits bs p var 0 = Some (var, p)"
| "parse_digits bs p var (Suc k) =
     (if 48 \<le> byte_at bs p \<and> byte_at bs p \<le> 57
      then parse_digits bs (Suc p) (var * 10 + (byte_at bs p - 48)) k
      else None)"

text \<open>
  \<^verbatim>\<open>parse_isoformat_date\<close> of Python 3.11: four digits of year, an optional \<^verbatim>\<open>-\<close> (byte 45),
  then either \<^verbatim>\<open>W\<close> (byte 87), two digits of week and, when the string goes on, one digit of
  day after the separator if one is in use; or two digits of month and two digits of day,
  separated as the year was. Nothing checks what follows the last digit read.
\<close>

definition parse_isoformat_date :: "nat list \<Rightarrow> nat \<Rightarrow> (nat \<times> nat \<times> nat) option" where
  "parse_isoformat_date bs len =
     (case parse_digits bs 0 0 4 of
        None \<Rightarrow> None
      | Some (y, p0) \<Rightarrow>
          (let uses_separator = (byte_at bs p0 = 45);
               p1 = (if uses_separator then Suc p0 else p0)
           in if byte_at bs p1 = 87
              then (case parse_digits bs (Suc p1) 0 2 of
                      None \<Rightarrow> None
                    | Some (w, p2) \<Rightarrow>
                        if p2 < len
                        then (if uses_separator \<and> byte_at bs p2 \<noteq> 45 then None
                              else (case parse_digits bs (if uses_separator then Suc p2 else p2) 0 1 of
                                      None \<Rightarrow> None
                                    | Some (d, p3) \<Rightarrow> iso_to_ymd y w d))
                        else iso_to_ymd y w 1)
              else (case parse_digits bs p1 0 2 of
                      None \<Rightarrow> None
                    | Some (m, p2) \<Rightarrow>
                        if uses_separator \<and> byte_at bs p2 \<noteq> 45 then None
                        else (case parse_digits bs (if uses_separator then Suc p2 else p2) 0 2 of
                                None \<Rightarrow> None
                              | Some (d, p3) \<Rightarrow> Some (y, m, d)))))"

text \<open>
  \<^verbatim>\<open>date.fromisoformat(s)\<close> of Python 3.11 on a string: the length in bytes is 7, 8 or 10,
  the string parses, and the constructor accepts the year (1..9999), month and day.
  \<open>None\<close> stands for the \<^verbatim>\<open>ValueError\<close> it raises otherwise. So \<^verbatim>\<open>2025-09-20\<close>, \<^verbatim>\<open>20250920\<close>,
  \<^verbatim>\<open>2025-W38-6\<close> and \<^verbatim>\<open>2025W386\<close> all give 20 September 2025.
\<close>

definition date_fromisoformat :: "string \<Rightarrow> date option" where
  "date_fromisoformat s =
     (let bs = utf8 s; len = length bs
      in if len = 7 \<or> len = 8 \<or> len = 10
         then (case parse_isoformat_date bs len of
                 None \<Rightarrow> None
               | Some (y, m, d) \<Rightarrow>
                   if 1 \<le> y \<and> y \<le> 9999 \<and> 1 \<le> m \<and> m \<le> 12 \<and> 1 \<le> d \<and> d \<le> days_in_month y m
                   then Some \<lparr>year = y, month = m, day = d\<rparr>
                   else None)
         else None)"

section \<open>flatten.py\<close>

record row =
  hotelId :: pyval
  checkInDate :: pyval
  nights :: "int option"
  totalPrice :: pyval
  currency :: pyval
  refundable :: "bool option"

text \<open>
  \<^verbatim>\<open>date.fromisoformat(x)\<close> inside the \<^verbatim>\<open>try\<close>: an argument that is not a string raises
  \<^verbatim>\<open>TypeError\<close>, which \<^verbatim>\<open>except Exception\<close> catches like the \<^verbatim>\<open>ValueError\<close> of a bad string.
\<close>

fun try_fromisoformat :: "pyval \<Rightarrow> date option" where
  "try_fromisoformat (PStr s) = date_fromisoformat s"
| "try_fromisoformat x = None"

text \<open>Lines 28 to 36 of \<^verbatim>\<open>flatten_offers\<close>: the value of \<^verbatim>\<open>nights\<close> after the \<^verbatim>\<open>try\<close>.\<close>

definition offer_nights :: "pyval \<Rightarrow> pyval \<Rightarrow> int option" where
  "offer_nights check_in check_out =
     (if truthy check_in \<and> truthy check_out
      then (case try_fromisoformat check_in of
              None \<Rightarrow> None
            | Some ci \<Rightarrow>
                (case try_fromisoformat check_out of
                   None \<Rightarrow> None
                 | Some co \<Rightarrow> Some (toordinal co - toordinal ci)))
      else None)"

text \<open>Lines 38 to 43: the value of \<^verbatim>\<open>refundable_flag\<close>, or the exception raised on the way.\<close>

definition offer_refundable :: "pyval \<Rightarrow> error + bool option" where
  "offer_refundable policies =
     bind_e (py_contains ''refundable'' policies) (\<lambda>present.
       if present
       then bind_e (py_getitem policies ''refundable'') (\<lambda>r.
            bind_e (py_get r ''cancellationRefund'' PNone) (\<lambda>cr.
              Inr (Some (cr \<noteq> PStr ''NON_REFUNDABLE''))))
       else Inr None)"

text \<open>The body of the innermost loop: one offer of an entry gives one row.\<close>

definition flatten_offer :: "pyval \<Rightarrow> pyval \<Rightarrow> error + row" where
  "flatten_offer hotel_id offer =
     bind_e (py_get offer ''checkInDate'' PNone) (\<lambda>check_in.
     bind_e (py_get offer ''checkOutDate'' PNone) (\<lambda>check_out.
     bind_e (py_get offer ''price'' (PDict [])) (\<lambda>price1.
     bind_e (py_get price1 ''total'' PNone) (\<lambda>price_total.
     bind_e (py_get offer ''price'' (PDict [])) (\<lambda>price2.
     bind_e (py_get price2 ''currency'' PNone) (\<lambda>cur.
     bind_e (py_get offer ''policies'' (PDict [])) (\<lambda>policies.
     bind_e (offer_refundable policies) (\<lambda>refundable_flag.
       Inr \<lparr>hotelId = hotel_id, checkInDate = check_in,
            nights = offer_nights check_in check_out,
            totalPrice = price_total, currency = cur,
            refundable = refundable_flag\<rparr>))))))))"

text \<open>
  A \<^verbatim>\<open>for\<close> loop whose body appends rows: the rows of every item in order, or the first
  exception, which ends the loop and discards the rows.
\<close>

fun for_rows :: "('a \<Rightarrow> error + row list) \<Rightarrow> 'a list \<Rightarrow> error + row list" where
  "for_rows body [] = Inr []"
| "for_rows body (x # xs) =
     (case body x of
        Inl e \<Rightarrow> Inl e
      | Inr rs \<Rightarrow> (case for_rows body xs of Inl e \<Rightarrow> Inl e | Inr rs' \<Rightarrow> Inr (rs @ rs')))"

definition flatten_entry :: "pyval \<Rightarrow> error + row list" where
  "flatten_entry entry =
     bind_e (py_get entry ''hotel'' (PDict [])) (\<lambda>hotel.
     bind_e (py_get hotel ''hotelId'' PNone) (\<lambda>hotel_id.
     bind_e (py_get entry ''offers'' (PList [])) (\<lambda>offers.
     bind_e (py_iter offers) (\<lambda>os.
       for_rows (\<lambda>offer. bind_e (flatten_offer hotel_id offer) (\<lambda>r. Inr [r])) os))))"

definition flatten_batch :: "pyval \<Rightarrow> error + row list" where
  "flatten_batch batch =
     bind_e (py_get batch ''response'' (PDict [])) (\<lambda>response.
     bind_e (py_get response ''data'' (PList [])) (\<lambda>data.
     bind_e (py_iter data) (\<lambda>entries.
       for_rows flatten_entry entries)))"

definition flatten_offers :: "pyval \<Rightarrow> error + row list" where
  "flatten_offers raw =
     bind_e (py_get raw ''batches'' (PList [])) (\<lambda>batches.
     bind_e (py_iter batches) (\<lambda>bs.
       for_rows flatten_batch bs))"

text \<open>\<^verbatim>\<open>d.get(key)\<close> on the items of a dict.\<close>

definition dict_get :: "(string \<times> pyval) list \<Rightarrow> string \<Rightarrow> pyval" where
  "dict_get kvs k = (case map_of kvs k of None \<Rightarrow> PNone | Some v \<Rightarrow> v)"

text \<open>Order of two dates, as Python compares them: by year, then month, then day.\<close>

definition date_le :: "date \<Rightarrow> date \<Rightarrow> bool" where
  "date_le a b =
     (year a < year b \<or> (year a = year b \<and>
       (month a < month b \<or> (month a = month b \<and> day a \<le> day b))))"

section \<open>amadeus_client.py\<close>

definition AMADEUS_AUTH_URL :: string where
  "AMADEUS_AUTH_URL = ''https://test.api.amadeus.com/v1/security/oauth2/token''"

definition MAX_RETRIES :: nat where
  "MAX_RETRIES = 3"

text \<open>
  \<^verbatim>\<open>RETRY_BACKOFF\<close> is the float 2.0. Its powers with the exponents used here are whole
  numbers that a float holds exactly, so the delays are natural numbers of seconds.
\<close>

definition RETRY_BACKOFF :: nat where
  "RETRY_BACKOFF = 2"

text \<open>
  What the client reads of a \<^verbatim>\<open>requests.Response\<close>: the status, the value of
  \<^verbatim>\<open>resp.headers.get("Retry-After")\<close>, the body text, and \<^verbatim>\<open>resp.json()\<close>, which is \<open>None\<close>
  when the body is not JSON and the call raises.
\<close>

record response =
  status_code :: int
  retry_after :: "string option"
  resp_text :: string
  resp_json :: "pyval option"

text \<open>The value of the f-string \<^verbatim>\<open>f"Bearer {token}"\<close>.\<close>

datatype header_value = Bearer pyval

text \<open>
  Everything the client does to the outside, in order: the two kinds of request with their
  arguments, and each call of \<^verbatim>\<open>time.sleep\<close> with its argument, the delay in seconds.
  \<open>TokenCall\<close> marks each entry into \<^verbatim>\<open>get_access_token\<close> with its \<^verbatim>\<open>force\<close> argument.
\<close>

datatype event =
    Post string "(string \<times> string) list"
  | Get string "(string \<times> pyval) list" "(string \<times> header_value) list"
  | Sleep nat
  | TokenCall bool

text \<open>
  The client object and its world. \<open>session\<close> holds the responses the HTTP session will give
  to the coming requests, in order; with none left the session raises. \<open>trace\<close> is the
  list of events so far.
\<close>

record client =
  client_id :: string
  client_secret :: string
  base_url :: string
  access_token :: pyval
  session :: "response list"
  trace :: "event list"

definition emit :: "event \<Rightarrow> client \<Rightarrow> client" where
  "emit ev c = c\<lparr>trace := trace c @ [ev]\<rparr>"

definition session_request :: "event \<Rightarrow> client \<Rightarrow> (error + response) \<times> client" where
  "session_request ev c =
     (case session c of
        [] \<Rightarrow> (Inl TransportError, emit ev c)
      | resp # rest \<Rightarrow> (Inr resp, (emit ev c)\<lparr>session := rest\<rparr>))"

text \<open>
  \<^verbatim>\<open>str.isdigit()\<close> on Latin-1 text: not empty, and every character a decimal digit or one
  of the superscript digits (code points 178, 179 and 185).
\<close>

definition is_digit_char :: "char \<Rightarrow> bool" where
  "is_digit_char c =
     (is_ascii_digit c \<or> (of_char c :: nat) = 178 \<or> (of_char c :: nat) = 179
        \<or> (of_char c :: nat) = 185)"

definition isdigit :: "string \<Rightarrow> bool" where
  "isdigit s = (s \<noteq> [] \<and> list_all is_digit_char s)"

definition sleep_backoff :: "nat \<Rightarrow> client \<Rightarrow> client" where
  "sleep_backoff attempt c = emit (Sleep (RETRY_BACKOFF ^ (attempt - 1))) c"

text \<open>The delay that \<^verbatim>\<open>_handle_rate_limit\<close> computes, or the exception of \<^verbatim>\<open>int\<close>.\<close>

definition rate_limit_delay :: "response \<Rightarrow> nat \<Rightarrow> error + nat" where
  "rate_limit_delay resp attempt =
     (case retry_after resp of
        None \<Rightarrow> Inr (max 1 (RETRY_BACKOFF ^ attempt))
      | Some s \<Rightarrow>
          if s \<noteq> [] \<and> isdigit s
          then (case parse_decimal s of None \<Rightarrow> Inl ValueError | Some n \<Rightarrow> Inr n)
          else Inr (max 1 (RETRY_BACKOFF ^ attempt)))"

definition handle_rate_limit :: "response \<Rightarrow> nat \<Rightarrow> client \<Rightarrow> (error + unit) \<times> client" where
  "handle_rate_limit resp attempt c =
     (case rate_limit_delay resp attempt of
        Inl e \<Rightarrow> (Inl e, c)
      | Inr delay \<Rightarrow>
          (if attempt \<ge> MAX_RETRIES then (Inl AmadeusRateLimitError, emit (Sleep delay) c)
           else (Inr (), emit (Sleep delay) c)))"

text \<open>
  The \<^verbatim>\<open>for attempt in range(1, MAX_RETRIES + 1)\<close> loop of \<^verbatim>\<open>_post_form\<close>, over the attempts
  still to come; the empty list is the statement after the loop.
\<close>

fun post_form_loop ::
  "string \<Rightarrow> (string \<times> string) list \<Rightarrow> nat list \<Rightarrow> client \<Rightarrow> (error + pyval) \<times> client" where
  "post_form_loop url data [] c = (Inl AuthFailedAfterRetries, c)"
| "post_form_loop url data (attempt # rest) c =
     (case session_request (Post url data) c of
        (Inl e, c1) \<Rightarrow> (Inl e, c1)
      | (Inr resp, c1) \<Rightarrow>
          if status_code resp = 429
          then (case handle_rate_limit resp attempt c1 of
                  (Inl e, c2) \<Rightarrow> (Inl e, c2)
                | (Inr u, c2) \<Rightarrow> post_form_loop url data rest c2)
          else if 200 \<le> status_code resp \<and> status_code resp < 300
          then (case resp_json resp of
                  None \<Rightarrow> (Inl JSONDecodeError, c1)
                | Some j \<Rightarrow> (Inr j, c1))
          else if 500 \<le> status_code resp \<and> status_code resp < 600 \<and> attempt < MAX_RETRIES
          then post_form_loop url data rest (sleep_backoff attempt c1)
          else (Inl (AuthRequestFailed (status_code resp) (take 500 (resp_text resp))), c1))"

definition post_form ::
  "string \<Rightarrow> (string \<times> string) list \<Rightarrow> client \<Rightarrow> (error + pyval) \<times> client" where
  "post_form url data c = post_form_loop url data [1..<MAX_RETRIES + 1] c"

definition token_payload :: "client \<Rightarrow> (string \<times> string) list" where
  "token_payload c =
     [(''grant_type'', ''client_credentials''),
      (''client_id'', client_id c),
      (''client_secret'', client_secret c)]"

definition get_access_token :: "bool \<Rightarrow> client \<Rightarrow> (error + pyval) \<times> client" where
  "get_access_token force c0 =
     (let c = emit (TokenCall force) c0 in
      if truthy (access_token c) \<and> \<not> force then (Inr (access_token c), c)
      else (case post_form AMADEUS_AUTH_URL (token_payload c) c of
              (Inl e, c1) \<Rightarrow> (Inl e, c1)
            | (Inr data, c1) \<Rightarrow>
                (case py_get data ''access_token'' PNone of
                   Inl e \<Rightarrow> (Inl e, c1)
                 | Inr token \<Rightarrow>
                     if \<not> truthy token then (Inl (MissingAccessToken data), c1)
                     else (Inr token, c1\<lparr>access_token := token\<rparr>))))"

definition headers :: "client \<Rightarrow> (error + (string \<times> header_value) list) \<times> client" where
  "headers c =
     (if \<not> truthy (access_token c)
      then (case get_access_token False c of
              (Inl e, c1) \<Rightarrow> (Inl e, c1)
            | (Inr t, c1) \<Rightarrow> (Inr [(''Authorization'', Bearer (access_token c1))], c1))
      else (Inr [(''Authorization'', Bearer (access_token c))], c))"

text \<open>The loop of \<^verbatim>\<open>_get\<close>, in the same form.\<close>

fun get_loop ::
  "string \<Rightarrow> (string \<times> pyval) list \<Rightarrow> nat list \<Rightarrow> client \<Rightarrow> (error + pyval) \<times> client" where
  "get_loop url params [] c = (Inl (GetFailedAfterRetries url), c)"
| "get_loop url params (attempt # rest) c =
     (case headers c of
        (Inl e, c0) \<Rightarrow> (Inl e, c0)
      | (Inr hs, c0) \<Rightarrow>
     (case session_request (Get url params hs) c0 of
        (Inl e, c1) \<Rightarrow> (Inl e, c1)
      | (Inr resp, c1) \<Rightarrow>
          if status_code resp = 429
          then (case handle_rate_limit resp attempt c1 of
                  (Inl e, c2) \<Rightarrow> (Inl e, c2)
                | (Inr u, c2) \<Rightarrow> get_loop url params rest c2)
          else if status_code resp = 401 \<and> attempt < MAX_RETRIES
          then (case get_access_token True c1 of
                  (Inl e, c2) \<Rightarrow> (Inl e, c2)
                | (Inr t, c2) \<Rightarrow> get_loop url params rest c2)
          else if 200 \<le> status_code resp \<and> status_code resp < 300
          then (case resp_json resp of
                  None \<Rightarrow> (Inl JSONDecodeError, c1)
                | Some j \<Rightarrow> (Inr j, c1))
          else if 500 \<le> status_code resp \<and> status_code resp < 600 \<and> attempt < MAX_RETRIES
          then get_loop url params rest (sleep_backoff attempt c1)
          else (Inl (GetFailed url (status_code resp) (take 500 (resp_text resp))), c1)))"

definition get ::
  "string \<Rightarrow> (string \<times> pyval) list \<Rightarrow> client \<Rightarrow> (error + pyval) \<times> client" where
  "get url params c = get_loop url params [1..<MAX_RETRIES + 1] c"






definition batch :: "string list \<Rightarrow> pyval \<Rightarrow> pyval" where
  "batch chunk resp = PDict [(''request_hotel_ids'', PList (map PStr chunk)), (''response'', resp)]"



section \<open>Auxiliary definitions for the statements\<close>

text \<open>
  The values of \<^verbatim>\<open>offer.get("price", {})\<close> and \<^verbatim>\<open>offer.get("policies", {})\<close> for an offer
  that is a dict, and an offer with the two dates and a price, used as a concrete input.
\<close>

definition offer_price :: "(string \<times> pyval) list \<Rightarrow> pyval" where
  "offer_price kvs = (case map_of kvs ''price'' of None \<Rightarrow> PDict [] | Some v \<Rightarrow> v)"

definition offer_policies :: "(string \<times> pyval) list \<Rightarrow> pyval" where
  "offer_policies kvs = (case map_of kvs ''policies'' of None \<Rightarrow> PDict [] | Some v \<Rightarrow> v)"

definition sample_offer :: "string \<Rightarrow> string \<Rightarrow> (string \<times> pyval) list" where
  "sample_offer ci co =
     [(''checkInDate'', PStr ci), (''checkOutDate'', PStr co),
      (''price'', PDict [(''total'', PStr ''100.00''), (''currency'', PStr ''EUR'')])]"


text \<open>The number of forced token refreshes recorded in a trace.\<close>

definition forced_refreshes :: "event list \<Rightarrow> nat" where
  "forced_refreshes evs = length (filter (\<lambda>e. e = TokenCall True) evs)"

fun is_request :: "event \<Rightarrow> bool" where
  "is_request (Post url data) = True"
| "is_request (Get url params hs) = True"
| "is_request e = False"

text \<open>The number of calls of the HTTP session recorded in a trace.\<close>

definition requests :: "event list \<Rightarrow> nat" where
  "requests evs = length (filter is_request evs)"


text \<open>Concrete inputs: a client that holds a token, a response with a JSON body, 21 ids.\<close>

definition sample_client :: "response list \<Rightarrow> client" where
  "sample_client rs =
     \<lparr>client_id = ''id'', client_secret = ''secret'', base_url = ''https://test.api.amadeus.com'',
      access_token = PStr ''t0'', session = rs, trace = []\<rparr>"

definition sample_response :: "int \<Rightarrow> pyval \<Rightarrow> response" where
  "sample_response st body =
     \<lparr>status_code = st, retry_after = None, resp_text = ''body'', resp_json = Some body\<rparr>"


definition sample_policy_offer :: "pyval \<Rightarrow> (string \<times> pyval) list" where
  "sample_policy_offer pol = sample_offer ''2025-09-20'' ''2025-09-22'' @ [(''policies'', pol)]"

text \<open>
  The offers of a raw response, in the order the three loops of \<^verbatim>\<open>flatten_offers\<close> visit
  them, each with the \<^verbatim>\<open>hotelId\<close> of its entry. \<open>items\<close> is what iterating over a value
  yields and \<open>py_field\<close> what \<^verbatim>\<open>.get\<close> returns; where the code would raise they give nothing
  and \<^verbatim>\<open>None\<close>, so that \<open>offers_in\<close> is defined for every value.
\<close>

definition items :: "pyval \<Rightarrow> pyval list" where
  "items x = (case py_iter x of Inl e \<Rightarrow> [] | Inr xs \<Rightarrow> xs)"

definition py_field :: "pyval \<Rightarrow> string \<Rightarrow> pyval \<Rightarrow> pyval" where
  "py_field x k dflt = (case py_get x k dflt of Inl e \<Rightarrow> PNone | Inr v \<Rightarrow> v)"

definition entry_offers :: "pyval \<Rightarrow> (pyval \<times> pyval) list" where
  "entry_offers entry =
     map (Pair (py_field (py_field entry ''hotel'' (PDict [])) ''hotelId'' PNone))
       (items (py_field entry ''offers'' (PList [])))"

definition batch_offers :: "pyval \<Rightarrow> (pyval \<times> pyval) list" where
  "batch_offers b =
     concat (map entry_offers
       (items (py_field (py_field b ''response'' (PDict [])) ''data'' (PList []))))"

definition offers_in :: "pyval \<Rightarrow> (pyval \<times> pyval) list" where
  "offers_in raw = concat (map batch_offers (items (py_field raw ''batches'' (PList []))))"

text \<open>
  A raw response in which every container the loops go through, and the \<^verbatim>\<open>price\<close>,
  \<^verbatim>\<open>policies\<close> and \<^verbatim>\<open>refundable\<close> values of every offer, have the JSON type the Amadeus
  response gives them (an object, or a list for \<^verbatim>\<open>batches\<close>, \<^verbatim>\<open>data\<close> and \<^verbatim>\<open>offers\<close>) or
  are absent. Nothing is asked of \<^verbatim>\<open>checkInDate\<close> and \<^verbatim>\<open>checkOutDate\<close>.
\<close>

fun dict_with :: "((string \<times> pyval) list \<Rightarrow> bool) \<Rightarrow> pyval \<Rightarrow> bool" where
  "dict_with P (PDict kvs) = P kvs"
| "dict_with P v = False"

fun list_with :: "(pyval \<Rightarrow> bool) \<Rightarrow> pyval \<Rightarrow> bool" where
  "list_with P (PList xs) = list_all P xs"
| "list_with P v = False"

definition opt_field :: "(pyval \<Rightarrow> bool) \<Rightarrow> (string \<times> pyval) list \<Rightarrow> string \<Rightarrow> bool" where
  "opt_field P kvs k = (case map_of kvs k of None \<Rightarrow> True | Some v \<Rightarrow> P v)"

definition is_dict :: "pyval \<Rightarrow> bool" where
  "is_dict = dict_with (\<lambda>kvs. True)"

definition shaped_offer :: "pyval \<Rightarrow> bool" where
  "shaped_offer =
     dict_with (\<lambda>kvs. opt_field is_dict kvs ''price'' \<and>
                      opt_field (dict_with (\<lambda>ps. opt_field is_dict ps ''refundable'')) kvs ''policies'')"

definition shaped_entry :: "pyval \<Rightarrow> bool" where
  "shaped_entry =
     dict_with (\<lambda>kvs. opt_field is_dict kvs ''hotel'' \<and>
                      opt_field (list_with shaped_offer) kvs ''offers'')"

definition shaped_batch :: "pyval \<Rightarrow> bool" where
  "shaped_batch =
     dict_with (\<lambda>kvs.
       opt_field (dict_with (\<lambda>resp. opt_field (list_with shaped_entry) resp ''data'')) kvs ''response'')"

definition shaped_raw :: "pyval \<Rightarrow> bool" where
  "shaped_raw = dict_with (\<lambda>kvs. opt_field (list_with shaped_batch) kvs ''batches'')"

text \<open>
  Concrete input: the raw response of one batch with one entry, for the hotel \<^verbatim>\<open>H1\<close>, that
  holds the given offers.
\<close>

definition sample_raw :: "pyval list \<Rightarrow> pyval" where
  "sample_raw offers =
     PDict [(''batches'', PList
       [PDict [(''request_hotel_ids'', PList [PStr ''H1'']),
               (''response'', PDict [(''data'', PList
                  [PDict [(''hotel'', PDict [(''hotelId'', PStr ''H1'')]),
                          (''offers'', PList offers)]])])]])]"

text \<open>An offer with the two dates whose \<^verbatim>\<open>price\<close> is a string, not an object.\<close>

definition bad_price_offer :: "string \<Rightarrow> string \<Rightarrow> (string \<times> pyval) list" where
  "bad_price_offer ci co =
     [(''checkInDate'', PStr ci), (''checkOutDate'', PStr co), (''price'', PStr ''100.00'')]"

text \<open>The row of \<open>sample_offer\<close> with the dates 2025-09-20 and 2025-09-22 apart from two fields.\<close>

definition sample_row :: "string \<Rightarrow> int option \<Rightarrow> bool option \<Rightarrow> row" where
  "sample_row ci n f =
     \<lparr>hotelId = PStr ''H1'', checkInDate = PStr ci, nights = n,
      totalPrice = PStr ''100.00'', currency = PStr ''EUR'', refundable = f\<rparr>"

section \<open>Properties of the flattening step\<close>

lemma bind_e_Inl [simp]: "bind_e (Inl e) f = Inl e"
  by (simp add: bind_e_def)

lemma bind_e_Inr [simp]: "bind_e (Inr x) f = f x"
  by (simp add: bind_e_def)

lemma bind_e_eq_Inr: "bind_e m f = Inr y \<longleftrightarrow> (\<exists>x. m = Inr x \<and> f x = Inr y)"
  by (cases m) simp_all

lemma py_get_dict: "py_get (PDict kvs) k PNone = Inr (dict_get kvs k)"
  by (simp add: dict_get_def)

lemma flatten_offer_is_dict: "flatten_offer hid offer = Inr r \<Longrightarrow> \<exists>kvs. offer = PDict kvs"
  by (cases offer) (simp_all add: flatten_offer_def)

lemma flatten_offer_dict:
  "flatten_offer hid (PDict kvs) =
     bind_e (py_get (offer_price kvs) ''total'' PNone) (\<lambda>t.
     bind_e (py_get (offer_price kvs) ''currency'' PNone) (\<lambda>cur.
     bind_e (offer_refundable (offer_policies kvs)) (\<lambda>f.
       Inr \<lparr>hotelId = hid, checkInDate = dict_get kvs ''checkInDate'',
            nights = offer_nights (dict_get kvs ''checkInDate'') (dict_get kvs ''checkOutDate''),
            totalPrice = t, currency = cur, refundable = f\<rparr>)))"
  by (simp add: flatten_offer_def dict_get_def offer_price_def offer_policies_def)

lemma flatten_offer_nights_eq:
  "flatten_offer hid (PDict kvs) = Inr r \<Longrightarrow>
     nights r = offer_nights (dict_get kvs ''checkInDate'') (dict_get kvs ''checkOutDate'')"
  by (auto simp: flatten_offer_dict bind_e_eq_Inr)

lemma flatten_offer_refundable_eq:
  "flatten_offer hid (PDict kvs) = Inr r \<Longrightarrow> offer_refundable (offer_policies kvs) = Inr (refundable r)"
  by (auto simp: flatten_offer_dict bind_e_eq_Inr)

lemma parse_digits_numeral:
  "parse_digits bs p var (numeral n) =
     (if 48 \<le> byte_at bs p \<and> byte_at bs p \<le> 57
      then parse_digits bs (Suc p) (var * 10 + (byte_at bs p - 48)) (pred_numeral n)
      else None)"
  by (simp add: numeral_eq_Suc)

lemmas date_eval = date_fromisoformat_def parse_isoformat_date_def parse_digits_numeral utf8_def
  byte_at_def iso_to_ymd_def ord_to_ymd_def iso_week1_monday_def weekday_def ymd_to_ord_def
  days_in_month_def is_leap_def toordinal_def days_before_year_def days_before_month_def Let_def

lemma date_fromisoformat_nonempty: "date_fromisoformat s = Some d \<Longrightarrow> s \<noteq> []"
  by (auto simp: date_fromisoformat_def utf8_def Let_def split: if_splits)

lemma try_fromisoformat_truthy: "try_fromisoformat x = Some d \<Longrightarrow> truthy x"
  by (cases x) (auto dest: date_fromisoformat_nonempty)

lemma offer_nights_cases:
  "offer_nights a b =
     (case try_fromisoformat a of
        None \<Rightarrow> None
      | Some ci \<Rightarrow> (case try_fromisoformat b of
                     None \<Rightarrow> None
                   | Some co \<Rightarrow> Some (toordinal co - toordinal ci)))"
  by (auto simp: offer_nights_def dest: try_fromisoformat_truthy split: option.splits)

lemma date_fromisoformat_valid:
  "date_fromisoformat s = Some d \<Longrightarrow>
     1 \<le> year d \<and> 1 \<le> month d \<and> month d \<le> 12 \<and> 1 \<le> day d \<and> day d \<le> days_in_month (year d) (month d)"
  by (auto simp: date_fromisoformat_def Let_def split: if_splits option.splits)

lemma for_rows_single:
  "for_rows (\<lambda>x. bind_e (f x) (\<lambda>r. Inr [r])) xs = Inr rs \<Longrightarrow> list_all2 (\<lambda>x r. f x = Inr r) xs rs"
proof (induction xs arbitrary: rs)
  case Nil
  then show ?case by simp
next
  case (Cons x xs)
  then show ?case
    by (auto simp: bind_e_eq_Inr split: sum.splits)
qed

lemma for_rows_concat:
  assumes "for_rows body xs = Inr rs"
    and "\<And>x rs'. body x = Inr rs' \<Longrightarrow> list_all2 P (g x) rs'"
  shows "list_all2 P (concat (map g xs)) rs"
  using assms(1)
proof (induction xs arbitrary: rs)
  case Nil
  then show ?case by simp
next
  case (Cons x xs)
  then show ?case
    by (auto split: sum.splits intro!: list_all2_appendI assms(2))
qed

lemma flatten_entry_rows:
  assumes "flatten_entry entry = Inr rs"
  shows "list_all2 (\<lambda>p r. flatten_offer (fst p) (snd p) = Inr r) (entry_offers entry) rs"
proof -
  from assms obtain hotel hid offers os where
    h: "py_get entry ''hotel'' (PDict []) = Inr hotel"
    and i: "py_get hotel ''hotelId'' PNone = Inr hid"
    and o: "py_get entry ''offers'' (PList []) = Inr offers"
    and it: "py_iter offers = Inr os"
    and f: "for_rows (\<lambda>offer. bind_e (flatten_offer hid offer) (\<lambda>r. Inr [r])) os = Inr rs"
    by (auto simp: flatten_entry_def bind_e_eq_Inr)
  have e: "entry_offers entry = map (Pair hid) os"
    by (simp add: entry_offers_def py_field_def items_def h i o it)
  from for_rows_single [OF f] show ?thesis
    by (simp add: e list_all2_map1)
qed

lemma flatten_batch_rows:
  assumes "flatten_batch b = Inr rs"
  shows "list_all2 (\<lambda>p r. flatten_offer (fst p) (snd p) = Inr r) (batch_offers b) rs"
proof -
  from assms obtain resp data es where
    h: "py_get b ''response'' (PDict []) = Inr resp"
    and d: "py_get resp ''data'' (PList []) = Inr data"
    and it: "py_iter data = Inr es"
    and f: "for_rows flatten_entry es = Inr rs"
    by (auto simp: flatten_batch_def bind_e_eq_Inr)
  have e: "batch_offers b = concat (map entry_offers es)"
    by (simp add: batch_offers_def py_field_def items_def h d it)
  show ?thesis
    unfolding e by (rule for_rows_concat [OF f]) (rule flatten_entry_rows)
qed

lemma flatten_offers_rows:
  assumes "flatten_offers raw = Inr rows"
  shows "list_all2 (\<lambda>p r. flatten_offer (fst p) (snd p) = Inr r) (offers_in raw) rows"
proof -
  from assms obtain batches bs where
    h: "py_get raw ''batches'' (PList []) = Inr batches"
    and it: "py_iter batches = Inr bs"
    and f: "for_rows flatten_batch bs = Inr rows"
    by (auto simp: flatten_offers_def bind_e_eq_Inr)
  have e: "offers_in raw = concat (map batch_offers bs)"
    by (simp add: offers_in_def py_field_def items_def h it)
  show ?thesis
    unfolding e by (rule for_rows_concat [OF f]) (rule flatten_batch_rows)
qed

lemma flatten_offers_nth:
  assumes "flatten_offers raw = Inr rows"
  shows "length rows = length (offers_in raw)"
    and "i < length rows \<Longrightarrow>
           flatten_offer (fst (offers_in raw ! i)) (snd (offers_in raw ! i)) = Inr (rows ! i)"
  using flatten_offers_rows [OF assms] by (auto simp: list_all2_conv_all_nth)

lemma for_rows_total:
  "(\<And>x. x \<in> set xs \<Longrightarrow> \<exists>rs. body x = Inr rs) \<Longrightarrow> \<exists>rs. for_rows body xs = Inr rs"
proof (induction xs)
  case Nil
  then show ?case by simp
next
  case (Cons x xs)
  then obtain rs where "body x = Inr rs" by auto
  moreover from Cons obtain rs' where "for_rows body xs = Inr rs'" by auto
  ultimately show ?case by simp
qed

lemma dict_withD: "dict_with P x \<Longrightarrow> \<exists>kvs. x = PDict kvs \<and> P kvs"
  by (cases x) simp_all

lemma list_withD: "list_with P x \<Longrightarrow> \<exists>xs. x = PList xs \<and> list_all P xs"
  by (cases x) simp_all

lemma opt_field_get:
  "opt_field P kvs k \<Longrightarrow> P dflt \<Longrightarrow> \<exists>v. py_get (PDict kvs) k dflt = Inr v \<and> P v"
  by (cases "map_of kvs k") (simp_all add: opt_field_def)

lemma is_dict_empty: "is_dict (PDict [])"
  by (simp add: is_dict_def)

lemma is_dictD: "is_dict x \<Longrightarrow> \<exists>d. x = PDict d"
  unfolding is_dict_def by (drule dict_withD) simp

lemma offer_refundable_total:
  assumes "opt_field is_dict ps ''refundable''"
  shows "\<exists>f. offer_refundable (PDict ps) = Inr f"
proof (cases "map_of ps ''refundable''")
  case None
  then show ?thesis by (simp add: offer_refundable_def)
next
  case (Some x)
  with assms have "is_dict x" by (simp add: opt_field_def)
  then obtain d where "x = PDict d" using is_dictD by blast
  with Some show ?thesis by (simp add: offer_refundable_def)
qed

lemma shaped_offer_total:
  assumes "shaped_offer offer"
  shows "\<exists>r. flatten_offer hid offer = Inr r"
proof -
  from assms obtain kvs where k: "offer = PDict kvs" and p: "opt_field is_dict kvs ''price''"
    and q: "opt_field (dict_with (\<lambda>ps. opt_field is_dict ps ''refundable'')) kvs ''policies''"
    unfolding shaped_offer_def by (blast dest: dict_withD)
  from opt_field_get [OF p is_dict_empty] obtain d where
    d: "py_get (PDict kvs) ''price'' (PDict []) = Inr (PDict d)"
    by (blast dest: is_dictD)
  have "dict_with (\<lambda>ps. opt_field is_dict ps ''refundable'') (PDict [])"
    by (simp add: opt_field_def)
  from opt_field_get [OF q this] obtain ps where
    ps: "py_get (PDict kvs) ''policies'' (PDict []) = Inr (PDict ps)"
    and r: "opt_field is_dict ps ''refundable''"
    by (blast dest: dict_withD)
  from offer_refundable_total [OF r] obtain f where f: "offer_refundable (PDict ps) = Inr f"
    by blast
  show ?thesis
    unfolding k flatten_offer_def by (simp add: d ps f del: py_get.simps) simp
qed

lemma shaped_entry_total:
  assumes "shaped_entry entry"
  shows "\<exists>rs. flatten_entry entry = Inr rs"
proof -
  from assms obtain kvs where k: "entry = PDict kvs" and h: "opt_field is_dict kvs ''hotel''"
    and q: "opt_field (list_with shaped_offer) kvs ''offers''"
    unfolding shaped_entry_def by (blast dest: dict_withD)
  from opt_field_get [OF h is_dict_empty] obtain d where
    d: "py_get (PDict kvs) ''hotel'' (PDict []) = Inr (PDict d)"
    by (blast dest: is_dictD)
  have "list_with shaped_offer (PList [])"
    by simp
  from opt_field_get [OF q this] obtain os where
    os: "py_get (PDict kvs) ''offers'' (PList []) = Inr (PList os)"
    and a: "list_all shaped_offer os"
    by (blast dest: list_withD)
  obtain hid where hid: "py_get (PDict d) ''hotelId'' PNone = Inr hid"
    by simp
  have "\<exists>rs. for_rows (\<lambda>offer. bind_e (flatten_offer hid offer) (\<lambda>r. Inr [r])) os = Inr rs"
  proof (rule for_rows_total)
    fix x assume "x \<in> set os"
    with a have "shaped_offer x" by (simp add: list_all_iff)
    from shaped_offer_total [OF this] obtain r where "flatten_offer hid x = Inr r"
      by blast
    then show "\<exists>rs. bind_e (flatten_offer hid x) (\<lambda>r. Inr [r]) = Inr rs"
      by simp
  qed
  then show ?thesis
    unfolding k flatten_entry_def by (simp add: d os hid del: py_get.simps)
qed

lemma shaped_batch_total:
  assumes "shaped_batch b"
  shows "\<exists>rs. flatten_batch b = Inr rs"
proof -
  from assms obtain kvs where k: "b = PDict kvs"
    and q: "opt_field (dict_with (\<lambda>resp. opt_field (list_with shaped_entry) resp ''data'')) kvs ''response''"
    unfolding shaped_batch_def by (blast dest: dict_withD)
  have "dict_with (\<lambda>resp. opt_field (list_with shaped_entry) resp ''data'') (PDict [])"
    by (simp add: opt_field_def)
  from opt_field_get [OF q this] obtain resp where
    r: "py_get (PDict kvs) ''response'' (PDict []) = Inr (PDict resp)"
    and q': "opt_field (list_with shaped_entry) resp ''data''"
    by (blast dest: dict_withD)
  have "list_with shaped_entry (PList [])"
    by simp
  from opt_field_get [OF q' this] obtain es where
    d: "py_get (PDict resp) ''data'' (PList []) = Inr (PList es)"
    and a: "list_all shaped_entry es"
    by (blast dest: list_withD)
  have "\<exists>rs. for_rows flatten_entry es = Inr rs"
    using a by (intro for_rows_total shaped_entry_total) (simp add: list_all_iff)
  then show ?thesis
    unfolding k flatten_batch_def by (simp add: r d del: py_get.simps)
qed

lemma shaped_raw_total:
  assumes "shaped_raw raw"
  shows "\<exists>rows. flatten_offers raw = Inr rows"
proof -
  from assms obtain kvs where k: "raw = PDict kvs"
    and q: "opt_field (list_with shaped_batch) kvs ''batches''"
    unfolding shaped_raw_def by (blast dest: dict_withD)
  have "list_with shaped_batch (PList [])"
    by simp
  from opt_field_get [OF q this] obtain bs where
    r: "py_get (PDict kvs) ''batches'' (PList []) = Inr (PList bs)"
    and a: "list_all shaped_batch bs"
    by (blast dest: list_withD)
  have "\<exists>rs. for_rows flatten_batch bs = Inr rs"
    using a by (intro for_rows_total shaped_batch_total) (simp add: list_all_iff)
  then show ?thesis
    unfolding k flatten_offers_def by (simp add: r del: py_get.simps)
qed

lemma flatten_offers_row:
  assumes "flatten_offers raw = Inr rows" and "i < length (offers_in raw)"
  shows "length rows = length (offers_in raw)"
    and "\<exists>kvs. snd (offers_in raw ! i) = PDict kvs \<and>
           flatten_offer (fst (offers_in raw ! i)) (PDict kvs) = Inr (rows ! i)"
proof -
  show l: "length rows = length (offers_in raw)"
    using flatten_offers_nth(1) [OF assms(1)] .
  have "flatten_offer (fst (offers_in raw ! i)) (snd (offers_in raw ! i)) = Inr (rows ! i)"
    using flatten_offers_nth(2) [OF assms(1)] assms(2) l by simp
  then show "\<exists>kvs. snd (offers_in raw ! i) = PDict kvs \<and>
           flatten_offer (fst (offers_in raw ! i)) (PDict kvs) = Inr (rows ! i)"
    using flatten_offer_is_dict by fastforce
qed

lemma offers_in_sample: "offers_in (sample_raw os) = map (Pair (PStr ''H1'')) os"
  by (simp add: offers_in_def batch_offers_def entry_offers_def sample_raw_def items_def py_field_def)

lemma flatten_offers_sample:
  "flatten_offers (sample_raw os) =
     for_rows (\<lambda>offer. bind_e (flatten_offer (PStr ''H1'') offer) (\<lambda>r. Inr [r])) os"
  by (cases "for_rows (\<lambda>offer. bind_e (flatten_offer (PStr ''H1'') offer) (\<lambda>r. Inr [r])) os")
     (simp_all add: flatten_offers_def flatten_batch_def flatten_entry_def sample_raw_def)

lemma shaped_sample: "shaped_raw (sample_raw os) = list_all shaped_offer os"
  by (simp add: shaped_raw_def shaped_batch_def shaped_entry_def sample_raw_def opt_field_def is_dict_def)

lemma sample_flatten:
  "flatten_offer (PStr ''H1'') (PDict (sample_offer ''2025-09-20'' ''2025-09-22'')) =
     Inr (sample_row ''2025-09-20'' (Some 2) None)"
  by (simp add: flatten_offer_def sample_offer_def sample_row_def offer_refundable_def offer_nights_def date_eval)

lemma sample_policy_flatten:
  "flatten_offer hid (PDict (sample_policy_offer (PDict ps))) =
     bind_e (offer_refundable (PDict ps)) (\<lambda>f.
       Inr \<lparr>hotelId = hid, checkInDate = PStr ''2025-09-20'', nights = Some 2,
            totalPrice = PStr ''100.00'', currency = PStr ''EUR'', refundable = f\<rparr>)"
  by (simp add: flatten_offer_def sample_policy_offer_def sample_offer_def offer_nights_def date_eval)

lemma offer_refundable_dict:
  "offer_refundable (PDict ps) =
     (case map_of ps ''refundable'' of
        None \<Rightarrow> Inr None
      | Some x \<Rightarrow> bind_e (py_get x ''cancellationRefund'' PNone)
                    (\<lambda>cr. Inr (Some (cr \<noteq> PStr ''NON_REFUNDABLE''))))"
  by (simp add: offer_refundable_def split: option.splits)

lemma offer_refundable_entry:
  "offer_refundable (PDict ps) = Inr f \<Longrightarrow> map_of ps ''refundable'' = Some x \<Longrightarrow>
     \<exists>rf. x = PDict rf \<and> f = Some (dict_get rf ''cancellationRefund'' \<noteq> PStr ''NON_REFUNDABLE'')"
  by (cases x) (auto simp: offer_refundable_dict dict_get_def)

lemma offer_refundable_absent:
  "map_of ps ''refundable'' = None \<Longrightarrow> offer_refundable (PDict ps) = Inr None"
  by (simp add: offer_refundable_dict)

lemma small_cases:
  "1 \<le> m \<Longrightarrow> m \<le> 6 \<Longrightarrow> m = 1 \<or> m = 2 \<or> m = 3 \<or> m = 4 \<or> m = 5 \<or> m = (6::nat)"
  by arith

lemma large_cases:
  "7 \<le> m \<Longrightarrow> m \<le> 12 \<Longrightarrow> m = 7 \<or> m = 8 \<or> m = 9 \<or> m = 10 \<or> m = 11 \<or> m = (12::nat)"
  by arith

lemma dbm_step:
  assumes "1 \<le> m" "m \<le> 11"
  shows "days_before_month y (m + 1) = days_before_month y m + days_in_month y m"
proof (cases "m \<le> 6")
  case True
  with assms small_cases [of m] have "m = 1 \<or> m = 2 \<or> m = 3 \<or> m = 4 \<or> m = 5 \<or> m = 6"
    by simp
  then show ?thesis
    by (elim disjE) (simp_all add: days_before_month_def days_in_month_def)
next
  case False
  with assms large_cases [of m] have "m = 7 \<or> m = 8 \<or> m = 9 \<or> m = 10 \<or> m = 11"
    by simp
  then show ?thesis
    by (elim disjE) (simp_all add: days_before_month_def days_in_month_def)
qed

lemma dbm_mono_aux: "1 \<le> m \<Longrightarrow> m + k \<le> 12 \<Longrightarrow> days_before_month y m \<le> days_before_month y (m + k)"
proof (induction k)
  case 0
  then show ?case by simp
next
  case (Suc k)
  then have "days_before_month y (m + k + 1) = days_before_month y (m + k) + days_in_month y (m + k)"
    by (intro dbm_step) auto
  with Suc show ?case by simp
qed

lemma dbm_mono: "1 \<le> m \<Longrightarrow> m \<le> m' \<Longrightarrow> m' \<le> 12 \<Longrightarrow> days_before_month y m \<le> days_before_month y m'"
  using dbm_mono_aux [of m "m' - m" y] by simp

lemma dbm_last: "days_before_month y 12 + 31 = (if is_leap y then 366 else 365)"
  by (simp add: days_before_month_def)

lemma within_year:
  assumes "1 \<le> m" "m \<le> 12" "d \<le> days_in_month y m"
  shows "days_before_month y m + d \<le> (if is_leap y then 366 else 365)"
proof (cases "m = 12")
  case True
  with assms have "d \<le> 31" by (simp add: days_in_month_def)
  with True dbm_last [of y] show ?thesis by (simp split: if_splits)
next
  case False
  with assms have m: "m \<le> 11" by simp
  have "days_before_month y m + d \<le> days_before_month y (m + 1)"
    using dbm_step [OF assms(1) m] assms(3) by simp
  also have "\<dots> \<le> days_before_month y 12"
    using assms(1) m by (intro dbm_mono) auto
  also have "\<dots> \<le> (if is_leap y then 366 else 365)"
    using dbm_last [of y] by (simp split: if_splits)
  finally show ?thesis .
qed

lemma dvd_400_100: "(400::nat) dvd k \<Longrightarrow> 100 dvd k"
  by (rule dvd_trans [of 100 400 k]) simp_all

lemma dvd_100_4: "(100::nat) dvd k \<Longrightarrow> 4 dvd k"
  by (rule dvd_trans [of 4 100 k]) simp_all

lemma dby_Suc_eq:
  "days_before_year (Suc (Suc n)) =
     Suc n * 365 + Suc n div 4 - Suc n div 100 + Suc n div 400"
  by (simp add: days_before_year_def)

lemma div_bound: "(k::nat) div 100 \<le> k * 365 + k div 4"
proof -
  have "k div 100 \<le> k" by simp
  also have "k \<le> k * 365 + k div 4" by simp
  finally show ?thesis .
qed

lemma div_le_div: "(k::nat) div 100 \<le> k div 4"
  by (rule div_le_mono2) simp_all

lemma dby_Suc:
  "days_before_year (Suc (Suc n)) =
     days_before_year (Suc n) + (if is_leap (Suc n) then 366 else 365)"
proof -
  define A C D where "A = n * 365 + n div 4" and "C = n div 100" and "D = n div 400"
  have c4: "Suc n div 4 = (if 4 dvd Suc n then Suc (n div 4) else n div 4)"
    by (simp add: div_Suc mod_eq_0_iff_dvd)
  have c100: "Suc n div 100 = (if 100 dvd Suc n then Suc (n div 100) else n div 100)"
    by (simp add: div_Suc mod_eq_0_iff_dvd)
  have c400: "Suc n div 400 = (if 400 dvd Suc n then Suc (n div 400) else n div 400)"
    by (simp add: div_Suc mod_eq_0_iff_dvd)
  have l: "is_leap (Suc n) = (4 dvd Suc n \<and> (\<not> 100 dvd Suc n \<or> 400 dvd Suc n))"
    by (simp add: is_leap_def mod_eq_0_iff_dvd)
  have b: "C \<le> A"
    unfolding A_def C_def by (rule div_bound)
  have e: "days_before_year (Suc n) = A - C + D"
    by (simp add: days_before_year_def A_def C_def D_def)
  have s: "days_before_year (Suc (Suc n)) =
      (A + 365 + (if 4 dvd Suc n then 1 else 0)) - (C + (if 100 dvd Suc n then 1 else 0))
        + (D + (if 400 dvd Suc n then 1 else 0))"
    unfolding dby_Suc_eq c4 c100 c400 A_def C_def D_def by (simp add: ac_simps)
  consider (a) "400 dvd Suc n" | (b) "100 dvd Suc n" "\<not> 400 dvd Suc n"
    | (c) "4 dvd Suc n" "\<not> 100 dvd Suc n" | (d) "\<not> 4 dvd Suc n"
    by blast
  then show ?thesis
  proof cases
    case a
    then have "100 dvd Suc n" "4 dvd Suc n"
      using dvd_400_100 dvd_100_4 by blast+
    with a b show ?thesis
      unfolding s e l by simp
  next
    case b
    then have "4 dvd Suc n"
      using dvd_100_4 by blast
    with b \<open>C \<le> A\<close> show ?thesis
      unfolding s e l by simp
  next
    case c
    then have "\<not> 400 dvd Suc n"
      using dvd_400_100 by blast
    with c b show ?thesis
      unfolding s e l by simp
  next
    case d
    then have "\<not> 100 dvd Suc n" "\<not> 400 dvd Suc n"
      using dvd_400_100 dvd_100_4 by blast+
    with d b show ?thesis
      unfolding s e l by simp
  qed
qed

lemma dby_mono_aux: "days_before_year (Suc n) \<le> days_before_year (Suc n + k)"
proof (induction k)
  case 0
  then show ?case by simp
next
  case (Suc k)
  have "days_before_year (Suc (Suc (n + k))) \<ge> days_before_year (Suc (n + k))"
    by (simp add: dby_Suc)
  with Suc show ?case by simp
qed

lemma dby_mono: "1 \<le> y \<Longrightarrow> y \<le> y' \<Longrightarrow> days_before_year y \<le> days_before_year y'"
  using dby_mono_aux [of "y - 1" "y' - y"] by simp

lemma toordinal_mono:
  assumes va: "1 \<le> year a" "1 \<le> month a" "month a \<le> 12" "1 \<le> day a" "day a \<le> days_in_month (year a) (month a)"
    and vb: "1 \<le> year b" "1 \<le> month b" "month b \<le> 12" "1 \<le> day b" "day b \<le> days_in_month (year b) (month b)"
    and le: "date_le a b"
  shows "toordinal a \<le> toordinal b"
proof -
  consider (y) "year a < year b" | (m) "year a = year b" "month a < month b"
    | (d) "year a = year b" "month a = month b" "day a \<le> day b"
    using le by (auto simp: date_le_def)
  then have "days_before_year (year a) + days_before_month (year a) (month a) + day a
      \<le> days_before_year (year b) + days_before_month (year b) (month b) + day b"
  proof cases
    case y
    obtain n where n: "year a = Suc n"
      using va(1) by (cases "year a") auto
    have "days_before_month (year a) (month a) + day a \<le> (if is_leap (year a) then 366 else 365)"
      using va by (intro within_year) auto
    then have "days_before_year (year a) + days_before_month (year a) (month a) + day a
        \<le> days_before_year (Suc (year a))"
      unfolding n dby_Suc by simp
    also have "\<dots> \<le> days_before_year (year b)"
      using y by (intro dby_mono) auto
    finally show ?thesis by simp
  next
    case m
    have "month a \<le> 11" using m vb by simp
    then have "days_before_month (year a) (month a) + day a \<le> days_before_month (year a) (month a + 1)"
      using va dbm_step [of "month a" "year a"] by simp
    also have "\<dots> \<le> days_before_month (year a) (month b)"
      using m va vb by (intro dbm_mono) auto
    finally show ?thesis using m by simp
  next
    case d
    then show ?thesis by simp
  qed
  then show ?thesis by (simp add: toordinal_def)
qed

lemma bad_price_flatten:
  "flatten_offers (sample_raw [PDict (bad_price_offer ci co)]) = Inl AttributeError"
  by (simp add: flatten_offers_sample flatten_offer_def bad_price_offer_def)

text \<open>
  Claim C7, as stated, has a counterexample: an offer whose check-in date does not parse and
  whose \<^verbatim>\<open>price\<close> is a string. Line 24 calls \<^verbatim>\<open>.get\<close> on the price outside the \<^verbatim>\<open>try\<close>, so
  \<^verbatim>\<open>flatten_offers\<close> raises \<^verbatim>\<open>AttributeError\<close> and the offer gets no row with a null \<^verbatim>\<open>nights\<close>.
\<close>

theorem flatten_offers_nights_counterexample:
  "try_fromisoformat (dict_get (bad_price_offer ''next week'' ''2025-09-22'') ''checkInDate'') = None
   \<and> flatten_offers (sample_raw [PDict (bad_price_offer ''next week'' ''2025-09-22'')])
       = Inl AttributeError"
  by (simp add: bad_price_flatten) (simp add: bad_price_offer_def dict_get_def date_eval)

text \<open>
  Claim C7, amended. When \<^verbatim>\<open>flatten_offers\<close> returns, it returns one row for each offer of
  the response, in order, and the \<^verbatim>\<open>nights\<close> field of the row of an offer is the number of
  days from the check-in date to the check-out date when both \<^verbatim>\<open>checkInDate\<close> and
  \<^verbatim>\<open>checkOutDate\<close> parse as dates, and null when either is missing, is not a string or does
  not parse. The date fields never make the step raise: a response in which every container
  and every \<^verbatim>\<open>price\<close>, \<^verbatim>\<open>policies\<close> and \<^verbatim>\<open>refundable\<close> value is of its JSON type or absent
  is always flattened to rows, whatever its date fields hold. The response with the dates
  2025-09-20 and 2025-09-22 gives one row with \<^verbatim>\<open>nights\<close> = 2.
\<close>

theorem flatten_offers_nights:
  "(flatten_offers raw = Inr rows \<longrightarrow>
      length rows = length (offers_in raw) \<and>
      (\<forall>i < length (offers_in raw).
         \<exists>kvs. snd (offers_in raw ! i) = PDict kvs \<and>
           nights (rows ! i) =
             (case try_fromisoformat (dict_get kvs ''checkInDate'') of
                None \<Rightarrow> None
              | Some ci \<Rightarrow>
                  (case try_fromisoformat (dict_get kvs ''checkOutDate'') of
                     None \<Rightarrow> None
                   | Some co \<Rightarrow> Some (toordinal co - toordinal ci)))))
   \<and> (shaped_raw raw \<longrightarrow> (\<exists>rows. flatten_offers raw = Inr rows))
   \<and> flatten_offers (sample_raw [PDict (sample_offer ''2025-09-20'' ''2025-09-22'')])
       = Inr [sample_row ''2025-09-20'' (Some 2) None]"
proof (intro conjI impI allI)
  assume a: "flatten_offers raw = Inr rows"
  then show "length rows = length (offers_in raw)"
    by (rule flatten_offers_nth(1))
next
  fix i
  assume a: "flatten_offers raw = Inr rows" and i: "i < length (offers_in raw)"
  from flatten_offers_row(2) [OF a i] obtain kvs where k: "snd (offers_in raw ! i) = PDict kvs"
    and f: "flatten_offer (fst (offers_in raw ! i)) (PDict kvs) = Inr (rows ! i)"
    by blast
  from f have "nights (rows ! i) = offer_nights (dict_get kvs ''checkInDate'') (dict_get kvs ''checkOutDate'')"
    by (rule flatten_offer_nights_eq)
  with k show "\<exists>kvs. snd (offers_in raw ! i) = PDict kvs \<and>
           nights (rows ! i) =
             (case try_fromisoformat (dict_get kvs ''checkInDate'') of
                None \<Rightarrow> None
              | Some ci \<Rightarrow>
                  (case try_fromisoformat (dict_get kvs ''checkOutDate'') of
                     None \<Rightarrow> None
                   | Some co \<Rightarrow> Some (toordinal co - toordinal ci)))"
    by (simp add: offer_nights_cases)
next
  assume "shaped_raw raw"
  then show "\<exists>rows. flatten_offers raw = Inr rows"
    by (rule shaped_raw_total)
next
  show "flatten_offers (sample_raw [PDict (sample_offer ''2025-09-20'' ''2025-09-22'')])
       = Inr [sample_row ''2025-09-20'' (Some 2) None]"
    by (simp add: flatten_offers_sample sample_flatten)
qed

theorem flatten_offers_nights_witness:
  "shaped_raw (sample_raw [PDict (sample_offer ''2025-09-20'' ''2025-09-22''),
                           PDict (sample_offer ''next week'' ''2025-09-22''),
                           PDict [(''checkInDate'', PStr ''20250920'')]])
   \<and> (\<exists>rows. flatten_offers (sample_raw [PDict (sample_offer ''2025-09-20'' ''2025-09-22''),
                                          PDict (sample_offer ''next week'' ''2025-09-22''),
                                          PDict [(''checkInDate'', PStr ''20250920'')]]) = Inr rows
        \<and> length rows = 3 \<and> nights (rows ! 0) = Some 2 \<and> nights (rows ! 1) = None
        \<and> nights (rows ! 2) = None)"
proof -
  let ?os = "[PDict (sample_offer ''2025-09-20'' ''2025-09-22''),
              PDict (sample_offer ''next week'' ''2025-09-22''),
              PDict [(''checkInDate'', PStr ''20250920'')]]"
  have s: "shaped_raw (sample_raw ?os)"
    by (simp add: shaped_sample shaped_offer_def sample_offer_def opt_field_def is_dict_def)
  with flatten_offers_nights [of "sample_raw ?os"]
  obtain rows where r: "flatten_offers (sample_raw ?os) = Inr rows"
    by blast
  have d1: "date_fromisoformat ''2025-09-20'' = Some \<lparr>year = 2025, month = 9, day = 20\<rparr>"
    and d2: "date_fromisoformat ''2025-09-22'' = Some \<lparr>year = 2025, month = 9, day = 22\<rparr>"
    and d3: "date_fromisoformat ''next week'' = None"
    and d4: "date_fromisoformat ''20250920'' = Some \<lparr>year = 2025, month = 9, day = 20\<rparr>"
    by (simp_all add: date_eval)
  have diff: "toordinal \<lparr>year = 2025, month = 9, day = 22\<rparr> - toordinal \<lparr>year = 2025, month = 9, day = 20\<rparr> = 2"
    by (simp add: date_eval)
  from r flatten_offers_nights [of "sample_raw ?os" rows]
  have l: "length rows = 3"
    and n: "\<forall>i < 3. \<exists>kvs. snd (map (Pair (PStr ''H1'')) ?os ! i) = PDict kvs \<and>
           nights (rows ! i) =
             (case try_fromisoformat (dict_get kvs ''checkInDate'') of
                None \<Rightarrow> None
              | Some ci \<Rightarrow>
                  (case try_fromisoformat (dict_get kvs ''checkOutDate'') of
                     None \<Rightarrow> None
                   | Some co \<Rightarrow> Some (toordinal co - toordinal ci)))"
    by (simp_all add: offers_in_sample)
  from n [rule_format, of 0] have n0: "nights (rows ! 0) = Some 2"
    by (simp add: sample_offer_def dict_get_def d1 d2 diff)
  from n [rule_format, of 1] have n1: "nights (rows ! 1) = None"
    by (simp add: sample_offer_def dict_get_def d3)
  from n [rule_format, of 2] have n2: "nights (rows ! 2) = None"
    by (simp add: dict_get_def d4)
  from s r l n0 n1 n2 show ?thesis
    by blast
qed

lemma flatten_offers_refundable_eq:
  assumes "flatten_offers raw = Inr rows" and "i < length (offers_in raw)"
    and "snd (offers_in raw ! i) = PDict kvs"
  shows "offer_refundable (offer_policies kvs) = Inr (refundable (rows ! i))"
proof -
  from flatten_offers_row(2) [OF assms(1) assms(2)] assms(3)
  have "flatten_offer (fst (offers_in raw ! i)) (PDict kvs) = Inr (rows ! i)"
    by simp
  then show ?thesis
    by (rule flatten_offer_refundable_eq)
qed

lemma sample_policy_rows:
  "flatten_offers (sample_raw [PDict (sample_policy_offer (PDict ps))]) =
     bind_e (offer_refundable (PDict ps)) (\<lambda>f. Inr [sample_row ''2025-09-20'' (Some 2) f])"
  by (cases "offer_refundable (PDict ps)")
     (simp_all add: flatten_offers_sample sample_policy_flatten sample_row_def)

text \<open>
  Claim C8. When \<^verbatim>\<open>flatten_offers\<close> returns, it returns one row for each offer of the
  response, in order. In the row of an offer whose policies hold a \<^verbatim>\<open>refundable\<close> entry,
  \<^verbatim>\<open>refundable\<close> is false when the entry's \<^verbatim>\<open>cancellationRefund\<close> is \<^verbatim>\<open>"NON_REFUNDABLE"\<close> and true
  when it is any other value; when the policies (present or defaulted to the empty dict) have
  no \<^verbatim>\<open>refundable\<close> key, \<^verbatim>\<open>refundable\<close> is null. The response whose one offer has
  \<^verbatim>\<open>policies.refundable.cancellationRefund = "NON_REFUNDABLE"\<close> gives one row with
  \<^verbatim>\<open>refundable\<close> false.
\<close>

theorem flatten_offers_refundable:
  "(flatten_offers raw = Inr rows \<and> i < length (offers_in raw) \<and>
      snd (offers_in raw ! i) = PDict kvs \<and> offer_policies kvs = PDict ps \<longrightarrow>
        length rows = length (offers_in raw)
      \<and> (map_of ps ''refundable'' = Some (PDict rf) \<and>
           map_of rf ''cancellationRefund'' = Some (PStr ''NON_REFUNDABLE'') \<longrightarrow>
           refundable (rows ! i) = Some False)
      \<and> (map_of ps ''refundable'' = Some (PDict rf) \<and>
           map_of rf ''cancellationRefund'' = Some v \<and> v \<noteq> PStr ''NON_REFUNDABLE'' \<longrightarrow>
           refundable (rows ! i) = Some True)
      \<and> (map_of ps ''refundable'' = None \<longrightarrow> refundable (rows ! i) = None))
   \<and> flatten_offers (sample_raw [PDict (sample_policy_offer
         (PDict [(''refundable'', PDict [(''cancellationRefund'', PStr ''NON_REFUNDABLE'')])]))])
       = Inr [sample_row ''2025-09-20'' (Some 2) (Some False)]"
proof (intro conjI impI)
  assume a: "flatten_offers raw = Inr rows \<and> i < length (offers_in raw) \<and>
      snd (offers_in raw ! i) = PDict kvs \<and> offer_policies kvs = PDict ps"
  then show "length rows = length (offers_in raw)"
    using flatten_offers_nth(1) by blast
  from a have f: "offer_refundable (PDict ps) = Inr (refundable (rows ! i))"
    using flatten_offers_refundable_eq [of raw rows i kvs] by simp
  {
    assume "map_of ps ''refundable'' = Some (PDict rf) \<and>
           map_of rf ''cancellationRefund'' = Some (PStr ''NON_REFUNDABLE'')"
    with f offer_refundable_entry [of ps "refundable (rows ! i)" "PDict rf"]
    show "refundable (rows ! i) = Some False"
      by (simp add: dict_get_def)
  }
  {
    assume "map_of ps ''refundable'' = Some (PDict rf) \<and>
           map_of rf ''cancellationRefund'' = Some v \<and> v \<noteq> PStr ''NON_REFUNDABLE''"
    with f offer_refundable_entry [of ps "refundable (rows ! i)" "PDict rf"]
    show "refundable (rows ! i) = Some True"
      by (simp add: dict_get_def)
  }
  {
    assume "map_of ps ''refundable'' = None"
    with f show "refundable (rows ! i) = None"
      by (simp add: offer_refundable_absent)
  }
next
  show "flatten_offers (sample_raw [PDict (sample_policy_offer
         (PDict [(''refundable'', PDict [(''cancellationRefund'', PStr ''NON_REFUNDABLE'')])]))])
       = Inr [sample_row ''2025-09-20'' (Some 2) (Some False)]"
    by (simp add: sample_policy_rows offer_refundable_dict)
qed

theorem flatten_offers_refundable_witness:
  "(\<exists>rows. flatten_offers (sample_raw [PDict (sample_policy_offer
       (PDict [(''refundable'', PDict [(''cancellationRefund'', PStr ''REFUNDABLE_UP_TO_DEADLINE'')])]))])
       = Inr rows \<and> length rows = 1 \<and> refundable (rows ! 0) = Some True)
   \<and> (\<exists>rows. flatten_offers (sample_raw [PDict (sample_policy_offer (PDict [(''guarantee'', PDict [])]))])
       = Inr rows \<and> length rows = 1 \<and> refundable (rows ! 0) = None)
   \<and> (\<exists>rows. flatten_offers (sample_raw [PDict (sample_offer ''2025-09-20'' ''2025-09-22'')])
       = Inr rows \<and> length rows = 1 \<and> refundable (rows ! 0) = None)"
proof (intro conjI)
  let ?rf = "[(''cancellationRefund'', PStr ''REFUNDABLE_UP_TO_DEADLINE'')]"
  let ?p2 = "[(''refundable'', PDict ?rf)]"
  let ?p3 = "[(''guarantee'', PDict [])]"
  let ?R2 = "sample_raw [PDict (sample_policy_offer (PDict ?p2))]"
  let ?R3 = "sample_raw [PDict (sample_policy_offer (PDict ?p3))]"
  let ?R4 = "sample_raw [PDict (sample_offer ''2025-09-20'' ''2025-09-22'')]"
  have "\<exists>rows. flatten_offers ?R2 = Inr rows"
    by (simp add: sample_policy_rows offer_refundable_dict)
  then obtain rows where r: "flatten_offers ?R2 = Inr rows"
    by blast
  have pol: "offer_policies (sample_policy_offer (PDict ?p2)) = PDict ?p2"
    by (simp add: offer_policies_def sample_policy_offer_def sample_offer_def)
  from r pol
    flatten_offers_refundable [of ?R2 rows 0 "sample_policy_offer (PDict ?p2)" ?p2 ?rf
      "PStr ''REFUNDABLE_UP_TO_DEADLINE''"]
  have "length rows = 1 \<and> refundable (rows ! 0) = Some True"
    by (simp add: offers_in_sample)
  with r show "\<exists>rows. flatten_offers ?R2 = Inr rows \<and> length rows = 1 \<and> refundable (rows ! 0) = Some True"
    by blast
  have "\<exists>rows. flatten_offers ?R3 = Inr rows"
    by (simp add: sample_policy_rows offer_refundable_dict)
  then obtain rows3 where r3: "flatten_offers ?R3 = Inr rows3"
    by blast
  have pol3: "offer_policies (sample_policy_offer (PDict ?p3)) = PDict ?p3"
    by (simp add: offer_policies_def sample_policy_offer_def sample_offer_def)
  from r3 pol3 flatten_offers_refundable [of ?R3 rows3 0 "sample_policy_offer (PDict ?p3)" ?p3]
  have "length rows3 = 1 \<and> refundable (rows3 ! 0) = None"
    by (simp add: offers_in_sample)
  with r3 show "\<exists>rows. flatten_offers ?R3 = Inr rows \<and> length rows = 1 \<and> refundable (rows ! 0) = None"
    by blast
  have "\<exists>rows. flatten_offers ?R4 = Inr rows"
    by (simp add: flatten_offers_sample sample_flatten)
  then obtain rows4 where r4: "flatten_offers ?R4 = Inr rows4"
    by blast
  have pol4: "offer_policies (sample_offer ''2025-09-20'' ''2025-09-22'') = PDict []"
    by (simp add: offer_policies_def sample_offer_def)
  from r4 pol4 flatten_offers_refundable [of ?R4 rows4 0 "sample_offer ''2025-09-20'' ''2025-09-22''" "[]"]
  have "length rows4 = 1 \<and> refundable (rows4 ! 0) = None"
    by (simp add: offers_in_sample)
  with r4 show "\<exists>rows. flatten_offers ?R4 = Inr rows \<and> length rows = 1 \<and> refundable (rows ! 0) = None"
    by blast
qed

text \<open>
  Claim C9. When the policies of an offer hold a \<^verbatim>\<open>refundable\<close> object that has no
  \<^verbatim>\<open>cancellationRefund\<close> field, the \<^verbatim>\<open>refundable\<close> of the offer's row in the result of
  \<^verbatim>\<open>flatten_offers\<close> is true, not null: the missing value is \<^verbatim>\<open>None\<close>, which differs from the
  sentinel string. The response whose one offer has \<^verbatim>\<open>policies.refundable = {}\<close> gives one row
  with \<^verbatim>\<open>refundable\<close> true.
\<close>

theorem flatten_offers_refundable_missing_field:
  "(flatten_offers raw = Inr rows \<and> i < length (offers_in raw) \<and>
      snd (offers_in raw ! i) = PDict kvs \<and> offer_policies kvs = PDict ps \<and>
      map_of ps ''refundable'' = Some (PDict rf) \<and> map_of rf ''cancellationRefund'' = None \<longrightarrow>
        length rows = length (offers_in raw) \<and>
        refundable (rows ! i) = Some True \<and> refundable (rows ! i) \<noteq> None)
   \<and> flatten_offers (sample_raw [PDict (sample_policy_offer (PDict [(''refundable'', PDict [])]))])
       = Inr [sample_row ''2025-09-20'' (Some 2) (Some True)]"
proof (intro conjI impI)
  assume a: "flatten_offers raw = Inr rows \<and> i < length (offers_in raw) \<and>
      snd (offers_in raw ! i) = PDict kvs \<and> offer_policies kvs = PDict ps \<and>
      map_of ps ''refundable'' = Some (PDict rf) \<and> map_of rf ''cancellationRefund'' = None"
  then show "length rows = length (offers_in raw)"
    using flatten_offers_nth(1) by blast
  from a have f: "offer_refundable (PDict ps) = Inr (refundable (rows ! i))"
    using flatten_offers_refundable_eq [of raw rows i kvs] by simp
  have "offer_refundable (PDict ps) = Inr (Some True)"
    using a by (simp add: offer_refundable_dict)
  with f show t: "refundable (rows ! i) = Some True"
    by simp
  then show "refundable (rows ! i) \<noteq> None"
    by simp
next
  show "flatten_offers (sample_raw [PDict (sample_policy_offer (PDict [(''refundable'', PDict [])]))])
       = Inr [sample_row ''2025-09-20'' (Some 2) (Some True)]"
    by (simp add: sample_policy_rows offer_refundable_dict)
qed

theorem flatten_offers_refundable_missing_field_witness:
  "\<exists>rows. flatten_offers (sample_raw
       [PDict (sample_offer ''2025-09-20'' ''2025-09-22''),
        PDict (sample_policy_offer (PDict [(''refundable'', PDict [(''comment'', PStr ''ask'')])]))])
       = Inr rows \<and> length rows = 2 \<and> refundable (rows ! 1) = Some True \<and> refundable (rows ! 1) \<noteq> None"
proof -
  let ?rf = "[(''comment'', PStr ''ask'')]"
  let ?p = "[(''refundable'', PDict ?rf)]"
  let ?R = "sample_raw [PDict (sample_offer ''2025-09-20'' ''2025-09-22''),
                        PDict (sample_policy_offer (PDict ?p))]"
  have "\<exists>rows. flatten_offers ?R = Inr rows"
    by (simp add: flatten_offers_sample sample_flatten sample_policy_flatten offer_refundable_dict)
  then obtain rows where r: "flatten_offers ?R = Inr rows"
    by blast
  have pol: "offer_policies (sample_policy_offer (PDict ?p)) = PDict ?p"
    by (simp add: offer_policies_def sample_policy_offer_def sample_offer_def)
  from r pol
    flatten_offers_refundable_missing_field [of ?R rows 1 "sample_policy_offer (PDict ?p)" ?p ?rf]
  have "length rows = 2 \<and> refundable (rows ! 1) = Some True \<and> refundable (rows ! 1) \<noteq> None"
    by (simp add: offers_in_sample)
  with r show ?thesis
    by blast
qed

text \<open>
  Claim C10, as stated, has a counterexample: an offer whose dates parse, with the check-out
  two days before the check-in, and whose \<^verbatim>\<open>price\<close> is a string. \<^verbatim>\<open>flatten_offers\<close> raises
  \<^verbatim>\<open>AttributeError\<close> at line 24 and emits no signed difference.
\<close>

theorem flatten_offers_reversed_dates_counterexample:
  "date_fromisoformat ''2025-09-22'' = Some \<lparr>year = 2025, month = 9, day = 22\<rparr>
   \<and> date_fromisoformat ''2025-09-20'' = Some \<lparr>year = 2025, month = 9, day = 20\<rparr>
   \<and> date_le \<lparr>year = 2025, month = 9, day = 20\<rparr> \<lparr>year = 2025, month = 9, day = 22\<rparr>
   \<and> flatten_offers (sample_raw [PDict (bad_price_offer ''2025-09-22'' ''2025-09-20'')])
       = Inl AttributeError"
  by (simp add: bad_price_flatten date_le_def) (simp add: date_eval)

text \<open>
  Claim C10, amended. When \<^verbatim>\<open>flatten_offers\<close> returns, the row of an offer whose two dates
  parse, with the check-out date on or before the check-in date, carries the signed day
  difference as \<^verbatim>\<open>nights\<close>, which is then zero or negative, and not null: no step validates
  the order of the dates. Nor do the dates make the step raise: a response in which every
  container and every \<^verbatim>\<open>price\<close>, \<^verbatim>\<open>policies\<close> and \<^verbatim>\<open>refundable\<close> value is of its JSON type or
  absent is always flattened to rows. The response with check-in 2025-09-22 and check-out
  2025-09-20 gives one row with \<^verbatim>\<open>nights\<close> = -2.
\<close>

theorem flatten_offers_reversed_dates:
  "(flatten_offers raw = Inr rows \<and> i < length (offers_in raw) \<and>
      snd (offers_in raw ! i) = PDict kvs \<and>
      dict_get kvs ''checkInDate'' = PStr a \<and> date_fromisoformat a = Some ci \<and>
      dict_get kvs ''checkOutDate'' = PStr b \<and> date_fromisoformat b = Some co \<and>
      date_le co ci \<longrightarrow>
        length rows = length (offers_in raw) \<and>
        nights (rows ! i) = Some (toordinal co - toordinal ci) \<and>
        toordinal co - toordinal ci \<le> 0)
   \<and> (shaped_raw raw \<longrightarrow> (\<exists>rows. flatten_offers raw = Inr rows))
   \<and> flatten_offers (sample_raw [PDict (sample_offer ''2025-09-22'' ''2025-09-20'')])
       = Inr [sample_row ''2025-09-22'' (Some (- 2)) None]"
proof (intro conjI impI)
  assume a: "flatten_offers raw = Inr rows \<and> i < length (offers_in raw) \<and>
      snd (offers_in raw ! i) = PDict kvs \<and>
      dict_get kvs ''checkInDate'' = PStr a \<and> date_fromisoformat a = Some ci \<and>
      dict_get kvs ''checkOutDate'' = PStr b \<and> date_fromisoformat b = Some co \<and>
      date_le co ci"
  then show "length rows = length (offers_in raw)"
    using flatten_offers_nth(1) by blast
  from a flatten_offers_row(2) [of raw rows i]
  have "flatten_offer (fst (offers_in raw ! i)) (PDict kvs) = Inr (rows ! i)"
    by auto
  then have "nights (rows ! i) = offer_nights (PStr a) (PStr b)"
    using a by (simp add: flatten_offer_nights_eq)
  then show "nights (rows ! i) = Some (toordinal co - toordinal ci)"
    using a by (simp add: offer_nights_cases)
  have ci: "date_fromisoformat a = Some ci" and co: "date_fromisoformat b = Some co"
    and le: "date_le co ci"
    using a by simp_all
  have "toordinal co \<le> toordinal ci"
    using date_fromisoformat_valid [OF co] date_fromisoformat_valid [OF ci] le
    by (intro toordinal_mono) simp_all
  then show "toordinal co - toordinal ci \<le> 0"
    by simp
next
  assume "shaped_raw raw"
  then show "\<exists>rows. flatten_offers raw = Inr rows"
    by (rule shaped_raw_total)
next
  show "flatten_offers (sample_raw [PDict (sample_offer ''2025-09-22'' ''2025-09-20'')])
       = Inr [sample_row ''2025-09-22'' (Some (- 2)) None]"
    by (simp add: flatten_offers_sample flatten_offer_def sample_offer_def sample_row_def
        offer_refundable_def offer_nights_def date_eval)
qed

theorem flatten_offers_reversed_dates_witness:
  "shaped_raw (sample_raw [PDict (sample_offer ''2025-09-22'' ''2025-09-20''),
                           PDict (sample_offer ''2025-W38-6'' ''20250920'')])
   \<and> (\<exists>rows. flatten_offers (sample_raw [PDict (sample_offer ''2025-09-22'' ''2025-09-20''),
                                          PDict (sample_offer ''2025-W38-6'' ''20250920'')]) = Inr rows
        \<and> length rows = 2 \<and> nights (rows ! 0) = Some (- 2) \<and> nights (rows ! 1) = Some 0)"
proof -
  let ?os = "[PDict (sample_offer ''2025-09-22'' ''2025-09-20''),
              PDict (sample_offer ''2025-W38-6'' ''20250920'')]"
  let ?d20 = "\<lparr>year = 2025, month = 9, day = 20\<rparr>"
  let ?d22 = "\<lparr>year = 2025, month = 9, day = 22\<rparr>"
  have s: "shaped_raw (sample_raw ?os)"
    by (simp add: shaped_sample shaped_offer_def sample_offer_def opt_field_def is_dict_def)
  with flatten_offers_reversed_dates [of "sample_raw ?os"]
  obtain rows where r: "flatten_offers (sample_raw ?os) = Inr rows"
    by blast
  have d22: "date_fromisoformat ''2025-09-22'' = Some ?d22"
    and d20: "date_fromisoformat ''2025-09-20'' = Some ?d20"
    and w20: "date_fromisoformat ''2025-W38-6'' = Some ?d20"
    and b20: "date_fromisoformat ''20250920'' = Some ?d20"
    by (simp_all add: date_eval)
  have le: "date_le ?d20 ?d22" and le0: "date_le ?d20 ?d20"
    by (simp_all add: date_le_def)
  have diff: "toordinal ?d20 - toordinal ?d22 = - 2"
    by (simp add: date_eval)
  from r d22 d20 le
    flatten_offers_reversed_dates [of "sample_raw ?os" rows 0 "sample_offer ''2025-09-22'' ''2025-09-20''"
      "''2025-09-22''" ?d22 "''2025-09-20''" ?d20]
  have n0: "length rows = 2 \<and> nights (rows ! 0) = Some (- 2)"
    by (simp add: offers_in_sample sample_offer_def dict_get_def diff)
  from r w20 b20 le0
    flatten_offers_reversed_dates [of "sample_raw ?os" rows 1 "sample_offer ''2025-W38-6'' ''20250920''"
      "''2025-W38-6''" ?d20 "''20250920''" ?d20]
  have n1: "nights (rows ! 1) = Some 0"
    by (simp add: offers_in_sample sample_offer_def dict_get_def)
  from s r n0 n1 show ?thesis
    by blast
qed

section \<open>Properties of the client\<close>










lemma attempts: "[1..<MAX_RETRIES + 1] = [1, 2, 3]"
  by (simp add: MAX_RETRIES_def upt_conv_Cons)

lemma headers_cached:
  "truthy (access_token c) \<Longrightarrow> headers c = (Inr [(''Authorization'', Bearer (access_token c))], c)"
  by (simp add: headers_def)







lemma session_request_Cons:
  "session c = r # rest \<Longrightarrow> session_request ev c = (Inr r, (emit ev c)\<lparr>session := rest\<rparr>)"
  by (simp add: session_request_def)

lemma emit_fields [simp]:
  "access_token (emit ev c) = access_token c" "session (emit ev c) = session c"
  "trace (emit ev c) = trace c @ [ev]" "base_url (emit ev c) = base_url c"
  "client_id (emit ev c) = client_id c" "client_secret (emit ev c) = client_secret c"
  by (simp_all add: emit_def)

lemma sleep_backoff_fields [simp]:
  "access_token (sleep_backoff a c) = access_token c" "session (sleep_backoff a c) = session c"
  "trace (sleep_backoff a c) = trace c @ [Sleep (2 ^ (a - 1))]"
  by (simp_all add: sleep_backoff_def RETRY_BACKOFF_def)

lemma post_form_loop_token:
  "post_form_loop url data as c = (res, c') \<Longrightarrow> access_token c' = access_token c"
proof (induction as arbitrary: c)
  case Nil
  then show ?case by auto
next
  case (Cons a as)
  show ?case
  proof (cases "session c")
    case Nil
    with Cons.prems show ?thesis
      by (auto simp: session_request_def)
  next
    case (Cons r rest)
    let ?c1 = "(emit (Post url data) c)\<lparr>session := rest\<rparr>"
    have t1: "access_token ?c1 = access_token c"
      by simp
    from Cons.prems Cons Cons.IH [of "snd (handle_rate_limit r a ?c1)"]
      Cons.IH [of "sleep_backoff a ?c1"] t1
    show ?thesis
      by (auto simp: session_request_def handle_rate_limit_def
          split: if_splits sum.splits option.splits prod.splits)
  qed
qed

lemma headers_Inr:
  assumes "headers c = (Inr hs, c0)"
  shows "truthy (access_token c0) \<and> hs = [(''Authorization'', Bearer (access_token c0))]"
proof (cases "truthy (access_token c)")
  case True
  with assms show ?thesis
    by (auto simp: headers_def)
next
  case False
  from False assms obtain t where g: "get_access_token False c = (Inr t, c0)"
    and hs: "hs = [(''Authorization'', Bearer (access_token c0))]"
    by (auto simp: headers_def split: prod.splits sum.splits)
  from g False have "truthy (access_token c0)"
    by (auto simp: get_access_token_def Let_def split: prod.splits sum.splits if_splits)
  with hs show ?thesis
    by simp
qed

lemma get_loop_5xx_retry:
  assumes "headers c = (Inr hs, c0)" and "session c0 = r # rest"
    and "500 \<le> status_code r" and "status_code r < 600" and "a < MAX_RETRIES"
  shows "get_loop url params (a # as) c =
     get_loop url params as (sleep_backoff a ((emit (Get url params hs) c0)\<lparr>session := rest\<rparr>))"
  using assms by (simp add: session_request_Cons)

lemma get_loop_5xx_final:
  assumes "headers c = (Inr hs, c0)" and "session c0 = r # rest"
    and "500 \<le> status_code r" and "status_code r < 600" and "\<not> a < MAX_RETRIES"
  shows "get_loop url params (a # as) c =
     (Inl (GetFailed url (status_code r) (take 500 (resp_text r))),
      (emit (Get url params hs) c0)\<lparr>session := rest\<rparr>)"
  using assms by (simp add: session_request_Cons)

text \<open>
  Claim C4. A \<^verbatim>\<open>_get\<close> whose three attempts each receive a 5xx response (three times 500
  in particular) calls the session's \<^verbatim>\<open>get\<close> exactly three times, with the same URL,
  parameters and headers, sleeps \<open>2 ^ (attempt - 1)\<close> seconds after the first and after the
  second response, that is 1 second and then 2 seconds, does not sleep after the third, and
  raises the \<^verbatim>\<open>RuntimeError\<close> whose message holds the status of the third response and the
  first 500 characters of its text. The attempts begin once \<^verbatim>\<open>_headers\<close> has returned: with a
  token cached that is at once, without one a token request comes first.
\<close>

theorem get_three_server_errors:
  assumes "headers c = (Inr hs, c0)"
    and "session c0 = r1 # r2 # r3 # rest"
    and "500 \<le> status_code r1 \<and> status_code r1 < 600"
    and "500 \<le> status_code r2 \<and> status_code r2 < 600"
    and "500 \<le> status_code r3 \<and> status_code r3 < 600"
  shows "\<exists>c'. get url params c = (Inl (GetFailed url (status_code r3) (take 500 (resp_text r3))), c')
           \<and> is_RuntimeError (GetFailed url (status_code r3) (take 500 (resp_text r3)))
           \<and> trace c' = trace c0 @ [Get url params hs, Sleep 1, Get url params hs, Sleep 2,
                                     Get url params hs]
           \<and> requests (trace c') = requests (trace c0) + 3
           \<and> session c' = rest"
proof -
  from headers_Inr [OF assms(1)] have t: "truthy (access_token c0)"
    and hs: "hs = [(''Authorization'', Bearer (access_token c0))]"
    by simp_all
  let ?g = "Get url params hs"
  define c1 where "c1 = sleep_backoff 1 ((emit ?g c0)\<lparr>session := r2 # r3 # rest\<rparr>)"
  define c2 where "c2 = sleep_backoff 2 ((emit ?g c1)\<lparr>session := r3 # rest\<rparr>)"
  define c3 where "c3 = (emit ?g c2)\<lparr>session := rest\<rparr>"
  have h1: "headers c1 = (Inr hs, c1)" and q1: "session c1 = r2 # r3 # rest"
    using t hs by (simp_all add: headers_cached c1_def)
  have h2: "headers c2 = (Inr hs, c2)" and q2: "session c2 = r3 # rest"
    using t hs by (simp_all add: headers_cached c2_def c1_def)
  have a1: "get_loop url params [1, 2, 3] c = get_loop url params [2, 3] c1"
    unfolding c1_def using assms(3)
    by (intro get_loop_5xx_retry [OF assms(1) assms(2)]) (simp_all add: MAX_RETRIES_def)
  have a2: "get_loop url params [2, 3] c1 = get_loop url params [3] c2"
    unfolding c2_def using assms(4)
    by (intro get_loop_5xx_retry [OF h1 q1]) (simp_all add: MAX_RETRIES_def)
  have a3: "get_loop url params [3] c2 =
      (Inl (GetFailed url (status_code r3) (take 500 (resp_text r3))), c3)"
    unfolding c3_def using assms(5)
    by (intro get_loop_5xx_final [OF h2 q2]) (simp_all add: MAX_RETRIES_def)
  have tr: "trace c3 = trace c0 @ [?g, Sleep 1, ?g, Sleep 2, ?g]" and se: "session c3 = rest"
    by (simp_all add: c3_def c2_def c1_def)
  have "get url params c =
      (Inl (GetFailed url (status_code r3) (take 500 (resp_text r3))), c3)"
    unfolding get_def attempts by (simp only: a1 a2 a3)
  with tr se show ?thesis
    by (simp add: requests_def)
qed

theorem get_three_server_errors_witness:
  "\<exists>c'. get ''u'' [] (sample_client [sample_response 500 PNone, sample_response 500 PNone,
                                      sample_response 500 PNone])
          = (Inl (GetFailed ''u'' 500 ''body''), c')
        \<and> trace c' = [Get ''u'' [] [(''Authorization'', Bearer (PStr ''t0''))], Sleep 1,
                       Get ''u'' [] [(''Authorization'', Bearer (PStr ''t0''))], Sleep 2,
                       Get ''u'' [] [(''Authorization'', Bearer (PStr ''t0''))]]
        \<and> session c' = []"
proof -
  let ?c = "sample_client [sample_response 500 PNone, sample_response 500 PNone,
                           sample_response 500 PNone]"
  have h: "headers ?c = (Inr [(''Authorization'', Bearer (PStr ''t0''))], ?c)"
    by (simp add: headers_def sample_client_def)
  have s: "session ?c = [sample_response 500 PNone, sample_response 500 PNone, sample_response 500 PNone]"
    by (simp add: sample_client_def)
  from get_three_server_errors [OF h s, of "''u''" "[]"]
  obtain c' where "get ''u'' [] ?c = (Inl (GetFailed ''u'' 500 ''body''), c')"
    and "trace c' = trace ?c @ [Get ''u'' [] [(''Authorization'', Bearer (PStr ''t0''))], Sleep 1,
                       Get ''u'' [] [(''Authorization'', Bearer (PStr ''t0''))], Sleep 2,
                       Get ''u'' [] [(''Authorization'', Bearer (PStr ''t0''))]]"
    and "session c' = []"
    by (auto simp: sample_response_def)
  then show ?thesis
    by (auto simp: sample_client_def)
qed

lemma forced_refreshes_simps [simp]:
  "forced_refreshes [] = 0"
  "forced_refreshes (evs @ evs') = forced_refreshes evs + forced_refreshes evs'"
  "forced_refreshes (TokenCall True # evs) = Suc (forced_refreshes evs)"
  "forced_refreshes (TokenCall False # evs) = forced_refreshes evs"
  "forced_refreshes (Post u d # evs) = forced_refreshes evs"
  "forced_refreshes (Get u p h # evs) = forced_refreshes evs"
  "forced_refreshes (Sleep n # evs) = forced_refreshes evs"
  by (simp_all add: forced_refreshes_def)

lemma handle_rate_limit_trace:
  "handle_rate_limit r a c = (res, c') \<Longrightarrow>
     access_token c' = access_token c \<and> session c' = session c \<and>
     (\<exists>evs. trace c' = trace c @ evs \<and> forced_refreshes evs = 0 \<and> requests evs = 0)"
  by (auto simp: handle_rate_limit_def requests_def split: sum.splits if_splits)

lemma post_form_loop_trace:
  "post_form_loop url data as c = (res, c') \<Longrightarrow>
     \<exists>evs. trace c' = trace c @ evs \<and> forced_refreshes evs = 0"
proof (induction as arbitrary: c)
  case Nil
  then show ?case by auto
next
  case (Cons a as)
  show ?case
  proof (cases "session c")
    case Nil
    with Cons.prems show ?thesis
      by (auto simp: session_request_def)
  next
    case sc: (Cons r rest)
    let ?c1 = "(emit (Post url data) c)\<lparr>session := rest\<rparr>"
    have s: "session_request (Post url data) c = (Inr r, ?c1)"
      using sc by (rule session_request_Cons)
    have t1: "trace ?c1 = trace c @ [Post url data]"
      by simp
    consider (rl) "status_code r = 429"
      | (ok) "status_code r \<noteq> 429" "200 \<le> status_code r \<and> status_code r < 300"
      | (retry) "status_code r \<noteq> 429" "\<not> (200 \<le> status_code r \<and> status_code r < 300)"
          "500 \<le> status_code r \<and> status_code r < 600 \<and> a < MAX_RETRIES"
      | (fail) "status_code r \<noteq> 429" "\<not> (200 \<le> status_code r \<and> status_code r < 300)"
          "\<not> (500 \<le> status_code r \<and> status_code r < 600 \<and> a < MAX_RETRIES)"
      by blast
    then show ?thesis
    proof cases
      case rl
      obtain hr c2 where h: "handle_rate_limit r a ?c1 = (hr, c2)"
        by (cases "handle_rate_limit r a ?c1") blast
      from handle_rate_limit_trace [OF h] obtain evs where
        e: "trace c2 = trace ?c1 @ evs" "forced_refreshes evs = 0"
        by blast
      show ?thesis
      proof (cases hr)
        case (Inl e')
        with Cons.prems s rl h have "c' = c2"
          by simp
        with e t1 show ?thesis
          by simp
      next
        case (Inr u)
        with Cons.prems s rl h have "post_form_loop url data as c2 = (res, c')"
          by simp
        from Cons.IH [OF this] obtain evs' where "trace c' = trace c2 @ evs'" "forced_refreshes evs' = 0"
          by blast
        with e t1 show ?thesis
          by simp
      qed
    next
      case ok
      with Cons.prems s have "c' = ?c1"
        by (auto split: option.splits)
      then show ?thesis
        by simp
    next
      case retry
      with Cons.prems s have "post_form_loop url data as (sleep_backoff a ?c1) = (res, c')"
        by simp
      from Cons.IH [OF this] obtain evs' where
        "trace c' = trace (sleep_backoff a ?c1) @ evs'" "forced_refreshes evs' = 0"
        by blast
      then show ?thesis
        by simp
    next
      case fail
      with Cons.prems s have "c' = ?c1"
        by auto
      then show ?thesis
        by simp
    qed
  qed
qed

lemma get_access_token_forced:
  assumes "get_access_token True c = (Inr t, c')"
  shows "truthy t \<and> access_token c' = t \<and>
         (\<exists>evs. trace c' = trace c @ TokenCall True # evs \<and> forced_refreshes evs = 0)"
proof -
  let ?c = "emit (TokenCall True) c"
  obtain res c1 where p: "post_form AMADEUS_AUTH_URL (token_payload ?c) ?c = (res, c1)"
    by (cases "post_form AMADEUS_AUTH_URL (token_payload ?c) ?c") blast
  from p post_form_loop_trace [of AMADEUS_AUTH_URL "token_payload ?c" _ ?c res c1]
  obtain evs where e: "trace c1 = trace ?c @ evs" "forced_refreshes evs = 0"
    by (auto simp: post_form_def)
  from assms p have "truthy t \<and> access_token c' = t \<and> trace c' = trace c1"
    by (auto simp: get_access_token_def Let_def split: sum.splits if_splits)
  with e show ?thesis
    by simp
qed

lemma post_form_loop_2xx:
  assumes "session c = r # rest" and "200 \<le> status_code r \<and> status_code r < 300"
  shows "post_form_loop url data (a # as) c =
     ((case resp_json r of None \<Rightarrow> Inl JSONDecodeError | Some j \<Rightarrow> Inr j),
      (emit (Post url data) c)\<lparr>session := rest\<rparr>)"
  using assms by (auto simp: session_request_Cons split: option.splits)

lemma token_payload_emit [simp]: "token_payload (emit ev c) = token_payload c"
  by (simp add: token_payload_def)

lemma get_access_token_exchange:
  assumes "force \<or> \<not> truthy (access_token c)" and "session c = r # rest"
    and "200 \<le> status_code r \<and> status_code r < 300"
    and "resp_json r = Some (PDict kvs)" and "map_of kvs ''access_token'' = Some t" and "truthy t"
  shows "get_access_token force c =
     (Inr t, (emit (Post AMADEUS_AUTH_URL (token_payload c)) (emit (TokenCall force) c))
               \<lparr>session := rest, access_token := t\<rparr>)"
proof -
  let ?c = "emit (TokenCall force) c"
  have s: "session ?c = r # rest"
    using assms(2) by simp
  have "post_form AMADEUS_AUTH_URL (token_payload ?c) ?c =
      (Inr (PDict kvs), (emit (Post AMADEUS_AUTH_URL (token_payload c)) ?c)\<lparr>session := rest\<rparr>)"
    unfolding post_form_def attempts
    by (simp only: post_form_loop_2xx [OF s assms(3)] assms(4) token_payload_emit) simp
  with assms(1,5,6) show ?thesis
    by (auto simp: get_access_token_def Let_def)
qed

lemma get_loop_401:
  assumes "headers c = (Inr hs, c0)" and "session c0 = r # rest" and "status_code r = 401"
  shows "get_loop url params (a # as) c =
     (if a < MAX_RETRIES
      then (case get_access_token True ((emit (Get url params hs) c0)\<lparr>session := rest\<rparr>) of
              (Inl e, c2) \<Rightarrow> (Inl e, c2)
            | (Inr t, c2) \<Rightarrow> get_loop url params as c2)
      else (Inl (GetFailed url 401 (take 500 (resp_text r))),
            (emit (Get url params hs) c0)\<lparr>session := rest\<rparr>))"
  using assms by (simp add: session_request_Cons)

lemma get_loop_2xx:
  assumes "headers c = (Inr hs, c0)" and "session c0 = r # rest"
    and "200 \<le> status_code r \<and> status_code r < 300"
  shows "get_loop url params (a # as) c =
     ((case resp_json r of None \<Rightarrow> Inl JSONDecodeError | Some j \<Rightarrow> Inr j),
      (emit (Get url params hs) c0)\<lparr>session := rest\<rparr>)"
  using assms by (auto simp: session_request_Cons split: option.splits)

text \<open>
  Claim C3. When the first attempt of a \<^verbatim>\<open>_get\<close> receives a 401 and the second a 2xx
  response (200 in particular), then between the two requests \<^verbatim>\<open>get_access_token\<close> is entered
  with \<^verbatim>\<open>force=True\<close> exactly once, the second request carries the refreshed token, and the
  call ends with \<^verbatim>\<open>resp.json()\<close> of the second response: its value is returned (or its
  exception raised when the body is not JSON). A 401 is answered by a refresh and a further
  attempt only while \<^verbatim>\<open>attempt < MAX_RETRIES\<close>; on the last attempt it raises the
  \<^verbatim>\<open>RuntimeError\<close> of a failed \<^verbatim>\<open>GET\<close> without a refresh.
\<close>

theorem get_unauthorized_refresh:
  "(headers c = (Inr hs, c0) \<and> session c0 = r1 # rest1 \<and> status_code r1 = 401 \<longrightarrow>
      get_loop url params (a # as) c =
        (if a < MAX_RETRIES
         then (case get_access_token True ((emit (Get url params hs) c0)\<lparr>session := rest1\<rparr>) of
                 (Inl e, c2) \<Rightarrow> (Inl e, c2)
               | (Inr t, c2) \<Rightarrow> get_loop url params as c2)
         else (Inl (GetFailed url 401 (take 500 (resp_text r1))),
               (emit (Get url params hs) c0)\<lparr>session := rest1\<rparr>)))
   \<and> (headers c = (Inr hs, c0) \<and> session c0 = r1 # rest1 \<and> status_code r1 = 401 \<and>
        get_access_token True ((emit (Get url params hs) c0)\<lparr>session := rest1\<rparr>) = (Inr t, c2) \<and>
        session c2 = r2 # rest \<and> 200 \<le> status_code r2 \<and> status_code r2 < 300 \<longrightarrow>
        (\<exists>c' mid. get url params c =
                     ((case resp_json r2 of None \<Rightarrow> Inl JSONDecodeError | Some j \<Rightarrow> Inr j), c')
           \<and> trace c' = trace c0 @ [Get url params hs] @ mid
                          @ [Get url params [(''Authorization'', Bearer t)]]
           \<and> forced_refreshes mid = 1
           \<and> session c' = rest))"
proof (intro conjI impI)
  assume "headers c = (Inr hs, c0) \<and> session c0 = r1 # rest1 \<and> status_code r1 = 401"
  then show "get_loop url params (a # as) c =
        (if a < MAX_RETRIES
         then (case get_access_token True ((emit (Get url params hs) c0)\<lparr>session := rest1\<rparr>) of
                 (Inl e, c2) \<Rightarrow> (Inl e, c2)
               | (Inr t, c2) \<Rightarrow> get_loop url params as c2)
         else (Inl (GetFailed url 401 (take 500 (resp_text r1))),
               (emit (Get url params hs) c0)\<lparr>session := rest1\<rparr>))"
    using get_loop_401 by blast
next
  let ?c1 = "(emit (Get url params hs) c0)\<lparr>session := rest1\<rparr>"
  let ?hs2 = "[(''Authorization'', Bearer t)]"
  assume a: "headers c = (Inr hs, c0) \<and> session c0 = r1 # rest1 \<and> status_code r1 = 401 \<and>
        get_access_token True ?c1 = (Inr t, c2) \<and>
        session c2 = r2 # rest \<and> 200 \<le> status_code r2 \<and> status_code r2 < 300"
  then have h: "headers c = (Inr hs, c0)" and s: "session c0 = r1 # rest1"
    and u: "status_code r1 = 401" and g: "get_access_token True ?c1 = (Inr t, c2)"
    and s2: "session c2 = r2 # rest" and ok: "200 \<le> status_code r2 \<and> status_code r2 < 300"
    by simp_all
  from get_access_token_forced [OF g] obtain evs where t: "truthy t" and at: "access_token c2 = t"
    and tr: "trace c2 = trace ?c1 @ TokenCall True # evs" and fr: "forced_refreshes evs = 0"
    by blast
  have h2: "headers c2 = (Inr ?hs2, c2)"
    using t at by (simp add: headers_cached)
  define c3 where "c3 = (emit (Get url params ?hs2) c2)\<lparr>session := rest\<rparr>"
  have "get_loop url params [1, 2, 3] c = get_loop url params [2, 3] c2"
    by (simp only: get_loop_401 [OF h s u] g) (simp add: MAX_RETRIES_def)
  also have "\<dots> = ((case resp_json r2 of None \<Rightarrow> Inl JSONDecodeError | Some j \<Rightarrow> Inr j), c3)"
    unfolding c3_def by (rule get_loop_2xx [OF h2 s2 ok])
  finally have r: "get url params c =
      ((case resp_json r2 of None \<Rightarrow> Inl JSONDecodeError | Some j \<Rightarrow> Inr j), c3)"
    by (simp only: get_def attempts)
  have "trace c3 = trace c0 @ [Get url params hs] @ (TokenCall True # evs) @ [Get url params ?hs2]"
    by (simp add: c3_def tr)
  moreover have "forced_refreshes (TokenCall True # evs) = 1"
    using fr by simp
  moreover have "session c3 = rest"
    by (simp add: c3_def)
  ultimately show "\<exists>c' mid. get url params c =
                     ((case resp_json r2 of None \<Rightarrow> Inl JSONDecodeError | Some j \<Rightarrow> Inr j), c')
           \<and> trace c' = trace c0 @ [Get url params hs] @ mid @ [Get url params ?hs2]
           \<and> forced_refreshes mid = 1
           \<and> session c' = rest"
    using r by blast
qed

theorem get_unauthorized_refresh_witness:
  "(\<exists>c'. get ''u'' [] (sample_client [sample_response 401 PNone,
                                        sample_response 200 (PDict [(''access_token'', PStr ''t1'')]),
                                        sample_response 200 (PStr ''second'')])
            = (Inr (PStr ''second''), c')
          \<and> forced_refreshes (trace c') = 1
          \<and> last (trace c') = Get ''u'' [] [(''Authorization'', Bearer (PStr ''t1''))]
          \<and> session c' = [])
   \<and> (\<exists>c'. get_loop ''u'' [] [3] (sample_client [sample_response 401 PNone])
            = (Inl (GetFailed ''u'' 401 ''body''), c')
          \<and> forced_refreshes (trace c') = 0)"
proof (intro conjI)
  let ?tok = "sample_response 200 (PDict [(''access_token'', PStr ''t1'')])"
  let ?r2 = "sample_response 200 (PStr ''second'')"
  let ?c = "sample_client [sample_response 401 PNone, ?tok, ?r2]"
  let ?hs = "[(''Authorization'', Bearer (PStr ''t0''))]"
  let ?c1 = "(emit (Get ''u'' [] ?hs) ?c)\<lparr>session := [?tok, ?r2]\<rparr>"
  have h: "headers ?c = (Inr ?hs, ?c)"
    by (simp add: headers_def sample_client_def)
  have s: "session ?c = [sample_response 401 PNone, ?tok, ?r2]"
    by (simp add: sample_client_def)
  have u: "status_code (sample_response 401 PNone) = 401"
    by (simp add: sample_response_def)
  have "get_access_token True ?c1 =
      (Inr (PStr ''t1''), (emit (Post AMADEUS_AUTH_URL (token_payload ?c1)) (emit (TokenCall True) ?c1))
               \<lparr>session := [?r2], access_token := PStr ''t1''\<rparr>)"
    by (rule get_access_token_exchange [where r = ?tok and kvs = "[(''access_token'', PStr ''t1'')]"])
       (simp_all add: sample_response_def)
  then obtain c2 where g: "get_access_token True ?c1 = (Inr (PStr ''t1''), c2)" and s2: "session c2 = [?r2]"
    by simp
  have ok: "200 \<le> status_code ?r2 \<and> status_code ?r2 < 300"
    by (simp add: sample_response_def)
  from h s u g s2 ok
    get_unauthorized_refresh [of ?c ?hs ?c "sample_response 401 PNone" "[?tok, ?r2]" "''u''" "[]"
      1 "[]" "PStr ''t1''" c2 ?r2 "[]"]
  obtain c' mid where "get ''u'' [] ?c = (Inr (PStr ''second''), c')"
    and "trace c' = trace ?c @ [Get ''u'' [] ?hs] @ mid @ [Get ''u'' [] [(''Authorization'', Bearer (PStr ''t1''))]]"
    and "forced_refreshes mid = 1" and "session c' = []"
    by (auto simp: sample_response_def)
  then show "\<exists>c'. get ''u'' [] ?c = (Inr (PStr ''second''), c') \<and> forced_refreshes (trace c') = 1
          \<and> last (trace c') = Get ''u'' [] [(''Authorization'', Bearer (PStr ''t1''))]
          \<and> session c' = []"
    by (auto simp: sample_client_def)
next
  let ?c = "sample_client [sample_response 401 PNone]"
  let ?hs = "[(''Authorization'', Bearer (PStr ''t0''))]"
  have h: "headers ?c = (Inr ?hs, ?c)"
    by (simp add: headers_def sample_client_def)
  have s: "session ?c = [sample_response 401 PNone]"
    by (simp add: sample_client_def)
  have u: "status_code (sample_response 401 PNone) = 401"
    by (simp add: sample_response_def)
  from h s u get_unauthorized_refresh [of ?c ?hs ?c "sample_response 401 PNone" "[]" "''u''" "[]" 3 "[]"]
  have "get_loop ''u'' [] [3] ?c =
      (Inl (GetFailed ''u'' 401 ''body''), (emit (Get ''u'' [] ?hs) ?c)\<lparr>session := []\<rparr>)"
    by (simp add: MAX_RETRIES_def sample_response_def)
  then show "\<exists>c'. get_loop ''u'' [] [3] ?c = (Inl (GetFailed ''u'' 401 ''body''), c')
          \<and> forced_refreshes (trace c') = 0"
    by (simp add: sample_client_def)
qed

lemma post_form_eq: "post_form url data c = post_form_loop url data [1, 2, 3] c"
  unfolding post_form_def attempts ..

lemma post_form_first_event:
  assumes "post_form url data c = (res, c1)"
  shows "\<exists>evs. trace c1 = trace c @ [Post url data] @ evs"
proof (cases "session c")
  case Nil
  with assms show ?thesis
    by (auto simp: post_form_eq session_request_def)
next
  case (Cons r rest)
  let ?c1 = "(emit (Post url data) c)\<lparr>session := rest\<rparr>"
  have s: "session_request (Post url data) c = (Inr r, ?c1)"
    using Cons by (rule session_request_Cons)
  have t: "trace ?c1 = trace c @ [Post url data]"
    by simp
  consider (rl) "status_code r = 429"
    | (ok) "status_code r \<noteq> 429" "200 \<le> status_code r \<and> status_code r < 300"
    | (retry) "status_code r \<noteq> 429" "\<not> (200 \<le> status_code r \<and> status_code r < 300)"
        "500 \<le> status_code r \<and> status_code r < 600"
    | (fail) "status_code r \<noteq> 429" "\<not> (200 \<le> status_code r \<and> status_code r < 300)"
        "\<not> (500 \<le> status_code r \<and> status_code r < 600)"
    by blast
  then show ?thesis
  proof cases
    case rl
    obtain hr c2 where h: "handle_rate_limit r 1 ?c1 = (hr, c2)"
      by (cases "handle_rate_limit r 1 ?c1") blast
    from handle_rate_limit_trace [OF h] obtain evs where e: "trace c2 = trace ?c1 @ evs"
      by blast
    show ?thesis
    proof (cases hr)
      case (Inl e')
      with assms s rl h have "c1 = c2"
        by (simp add: post_form_eq)
      with e t show ?thesis
        by simp
    next
      case (Inr u)
      with assms s rl h have "post_form_loop url data [2, 3] c2 = (res, c1)"
        by (simp add: post_form_eq)
      from post_form_loop_trace [OF this] obtain evs' where "trace c1 = trace c2 @ evs'"
        by blast
      with e t show ?thesis
        by simp
    qed
  next
    case ok
    with assms s have "c1 = ?c1"
      by (auto simp: post_form_eq split: option.splits)
    then show ?thesis
      by simp
  next
    case retry
    with assms s have "post_form_loop url data [2, 3] (sleep_backoff 1 ?c1) = (res, c1)"
      by (simp add: post_form_eq MAX_RETRIES_def)
    from post_form_loop_trace [OF this] obtain evs' where
      "trace c1 = trace (sleep_backoff 1 ?c1) @ evs'"
      by blast
    then show ?thesis
      by simp
  next
    case fail
    with assms s have "c1 = ?c1"
      by (auto simp: post_form_eq)
    then show ?thesis
      by simp
  qed
qed

lemma get_access_token_cached:
  "\<not> force \<Longrightarrow> truthy (access_token c) \<Longrightarrow>
     get_access_token force c = (Inr (access_token c), emit (TokenCall force) c)"
  by (simp add: get_access_token_def Let_def)

lemma get_access_token_exchanges:
  assumes "force \<or> \<not> truthy (access_token c)"
    and "post_form AMADEUS_AUTH_URL (token_payload c) (emit (TokenCall force) c) = (res, c1)"
  shows "get_access_token force c =
     (case res of
        Inl e \<Rightarrow> (Inl e, c1)
      | Inr data \<Rightarrow>
          (case py_get data ''access_token'' PNone of
             Inl e \<Rightarrow> (Inl e, c1)
           | Inr token \<Rightarrow>
               if \<not> truthy token then (Inl (MissingAccessToken data), c1)
               else (Inr token, c1\<lparr>access_token := token\<rparr>)))"
  using assms by (auto simp: get_access_token_def Let_def split: sum.splits)

text \<open>
  Claim C6, as stated, has a counterexample: a forced call whose token request receives a 200
  response with the JSON body \<^verbatim>\<open>[]\<close>. The response holds no token, yet \<^verbatim>\<open>data.get\<close> raises
  \<^verbatim>\<open>AttributeError\<close>, which is not an \<^verbatim>\<open>AmadeusAuthError\<close>.
\<close>

theorem get_access_token_counterexample:
  "fst (get_access_token True (sample_client [sample_response 200 (PList [])])) = Inl AttributeError
   \<and> \<not> is_AmadeusAuthError AttributeError"
  by (simp add: get_access_token_def Let_def post_form_eq session_request_def
      sample_client_def sample_response_def)

text \<open>
  Claim C6, amended. \<^verbatim>\<open>get_access_token(force)\<close> with \<^verbatim>\<open>force\<close> false and a token cached
  returns the cached token and sends no request. With \<^verbatim>\<open>force\<close> true or no token cached it
  runs the token exchange: a \<^verbatim>\<open>POST\<close> of the client credentials to the authorization URL comes
  first, and the cached token is as before when \<^verbatim>\<open>_post_form\<close> has ended. An exception of
  \<^verbatim>\<open>_post_form\<close> propagates. When \<^verbatim>\<open>_post_form\<close> returns a JSON object whose \<^verbatim>\<open>access_token\<close> is
  a non-empty value, that value is cached and returned; when it returns a JSON object whose
  \<^verbatim>\<open>access_token\<close> is missing or empty, \<^verbatim>\<open>AmadeusAuthError\<close> is raised, nothing more is sent and
  the cached token stays as it was; when it returns JSON that is not an object,
  \<^verbatim>\<open>AttributeError\<close> is raised instead. A 2xx response to the first \<^verbatim>\<open>POST\<close> that lacks the token
  ends the call after that one request.
\<close>

theorem get_access_token_cases:
  "(\<not> force \<and> truthy (access_token c) \<longrightarrow>
      get_access_token force c = (Inr (access_token c), emit (TokenCall force) c)
      \<and> requests (trace (emit (TokenCall force) c)) = requests (trace c))
   \<and> (force \<or> \<not> truthy (access_token c) \<longrightarrow>
        (\<exists>res c1 evs.
           post_form AMADEUS_AUTH_URL (token_payload c) (emit (TokenCall force) c) = (res, c1)
           \<and> trace c1 = trace c @ [TokenCall force, Post AMADEUS_AUTH_URL (token_payload c)] @ evs
           \<and> access_token c1 = access_token c
           \<and> (\<forall>e. res = Inl e \<longrightarrow> get_access_token force c = (Inl e, c1))
           \<and> (\<forall>kvs. res = Inr (PDict kvs) \<and> truthy (dict_get kvs ''access_token'') \<longrightarrow>
                 get_access_token force c =
                   (Inr (dict_get kvs ''access_token''),
                    c1\<lparr>access_token := dict_get kvs ''access_token''\<rparr>))
           \<and> (\<forall>kvs. res = Inr (PDict kvs) \<and> \<not> truthy (dict_get kvs ''access_token'') \<longrightarrow>
                 get_access_token force c = (Inl (MissingAccessToken (PDict kvs)), c1)
                 \<and> is_AmadeusAuthError (MissingAccessToken (PDict kvs)))
           \<and> (\<forall>data. res = Inr data \<and> \<not> is_dict data \<longrightarrow>
                 get_access_token force c = (Inl AttributeError, c1))))
   \<and> ((force \<or> \<not> truthy (access_token c)) \<and> session c = r # rest \<and>
        200 \<le> status_code r \<and> status_code r < 300 \<and> resp_json r = Some (PDict kvs) \<and>
        \<not> truthy (dict_get kvs ''access_token'') \<longrightarrow>
          get_access_token force c =
            (Inl (MissingAccessToken (PDict kvs)),
             (emit (Post AMADEUS_AUTH_URL (token_payload c)) (emit (TokenCall force) c))
               \<lparr>session := rest\<rparr>))"
proof (intro conjI impI)
  assume "\<not> force \<and> truthy (access_token c)"
  then show "get_access_token force c = (Inr (access_token c), emit (TokenCall force) c)"
    by (simp add: get_access_token_cached)
next
  show "requests (trace (emit (TokenCall force) c)) = requests (trace c)"
    by (simp add: requests_def)
next
  assume f: "force \<or> \<not> truthy (access_token c)"
  let ?c = "emit (TokenCall force) c"
  obtain res c1 where p: "post_form AMADEUS_AUTH_URL (token_payload c) ?c = (res, c1)"
    by (cases "post_form AMADEUS_AUTH_URL (token_payload c) ?c") blast
  from post_form_first_event [OF p] obtain evs where
    tr: "trace c1 = trace c @ [TokenCall force, Post AMADEUS_AUTH_URL (token_payload c)] @ evs"
    by auto
  have tk: "access_token c1 = access_token c"
    using p post_form_loop_token [of AMADEUS_AUTH_URL "token_payload c" _ ?c res c1]
    by (simp add: post_form_def)
  note g = get_access_token_exchanges [OF f p]
  have 1: "\<forall>e. res = Inl e \<longrightarrow> get_access_token force c = (Inl e, c1)"
    using g by simp
  have 2: "\<forall>kvs. res = Inr (PDict kvs) \<and> truthy (dict_get kvs ''access_token'') \<longrightarrow>
      get_access_token force c =
        (Inr (dict_get kvs ''access_token''), c1\<lparr>access_token := dict_get kvs ''access_token''\<rparr>)"
    using g by (simp add: dict_get_def)
  have 3: "\<forall>kvs. res = Inr (PDict kvs) \<and> \<not> truthy (dict_get kvs ''access_token'') \<longrightarrow>
      get_access_token force c = (Inl (MissingAccessToken (PDict kvs)), c1)
      \<and> is_AmadeusAuthError (MissingAccessToken (PDict kvs))"
    using g by (simp add: dict_get_def)
  have 4: "\<forall>data. res = Inr data \<and> \<not> is_dict data \<longrightarrow>
      get_access_token force c = (Inl AttributeError, c1)"
  proof (intro allI impI)
    fix data assume d: "res = Inr data \<and> \<not> is_dict data"
    then have "py_get data ''access_token'' PNone = Inl AttributeError"
      by (cases data) (simp_all add: is_dict_def)
    with g d show "get_access_token force c = (Inl AttributeError, c1)"
      by simp
  qed
  from p tr tk 1 2 3 4
  show "\<exists>res c1 evs.
           post_form AMADEUS_AUTH_URL (token_payload c) (emit (TokenCall force) c) = (res, c1)
           \<and> trace c1 = trace c @ [TokenCall force, Post AMADEUS_AUTH_URL (token_payload c)] @ evs
           \<and> access_token c1 = access_token c
           \<and> (\<forall>e. res = Inl e \<longrightarrow> get_access_token force c = (Inl e, c1))
           \<and> (\<forall>kvs. res = Inr (PDict kvs) \<and> truthy (dict_get kvs ''access_token'') \<longrightarrow>
                 get_access_token force c =
                   (Inr (dict_get kvs ''access_token''),
                    c1\<lparr>access_token := dict_get kvs ''access_token''\<rparr>))
           \<and> (\<forall>kvs. res = Inr (PDict kvs) \<and> \<not> truthy (dict_get kvs ''access_token'') \<longrightarrow>
                 get_access_token force c = (Inl (MissingAccessToken (PDict kvs)), c1)
                 \<and> is_AmadeusAuthError (MissingAccessToken (PDict kvs)))
           \<and> (\<forall>data. res = Inr data \<and> \<not> is_dict data \<longrightarrow>
                 get_access_token force c = (Inl AttributeError, c1))"
    by blast
next
  let ?c = "emit (TokenCall force) c"
  assume a: "(force \<or> \<not> truthy (access_token c)) \<and> session c = r # rest \<and>
        200 \<le> status_code r \<and> status_code r < 300 \<and> resp_json r = Some (PDict kvs) \<and>
        \<not> truthy (dict_get kvs ''access_token'')"
  then have s: "session ?c = r # rest" and ok: "200 \<le> status_code r \<and> status_code r < 300"
    by simp_all
  have p: "post_form AMADEUS_AUTH_URL (token_payload c) ?c =
      (Inr (PDict kvs), (emit (Post AMADEUS_AUTH_URL (token_payload c)) ?c)\<lparr>session := rest\<rparr>)"
    unfolding post_form_def attempts
    using a by (simp only: post_form_loop_2xx [OF s ok]) simp
  from a have f: "force \<or> \<not> truthy (access_token c)"
    by simp
  show "get_access_token force c =
            (Inl (MissingAccessToken (PDict kvs)),
             (emit (Post AMADEUS_AUTH_URL (token_payload c)) ?c)\<lparr>session := rest\<rparr>)"
    using a by (simp add: get_access_token_exchanges [OF f p] dict_get_def)
qed

theorem get_access_token_cases_witness:
  "get_access_token False (sample_client []) = (Inr (PStr ''t0''), emit (TokenCall False) (sample_client []))
   \<and> (\<exists>c'. get_access_token True
               (sample_client [sample_response 200 (PDict [(''access_token'', PStr ''t1'')])])
             = (Inr (PStr ''t1''), c') \<and> access_token c' = PStr ''t1'')
   \<and> (\<exists>c'. get_access_token True
               (sample_client [sample_response 200 (PDict [(''expires_in'', PInt 1799)])])
             = (Inl (MissingAccessToken (PDict [(''expires_in'', PInt 1799)])), c')
           \<and> access_token c' = PStr ''t0'' \<and> requests (trace c') = 1 \<and> session c' = [])"
proof (intro conjI)
  have "truthy (access_token (sample_client []))"
    by (simp add: sample_client_def)
  with get_access_token_cases [of False "sample_client []"]
  show "get_access_token False (sample_client []) = (Inr (PStr ''t0''), emit (TokenCall False) (sample_client []))"
    by (simp add: sample_client_def)
next
  let ?kvs = "[(''access_token'', PStr ''t1'')]"
  let ?r = "sample_response 200 (PDict ?kvs)"
  let ?c = "sample_client [?r]"
  let ?d = "emit (TokenCall True) ?c"
  have s: "session ?d = [?r]"
    by (simp add: sample_client_def)
  have ok: "200 \<le> status_code ?r \<and> status_code ?r < 300"
    by (simp add: sample_response_def)
  have p: "post_form AMADEUS_AUTH_URL (token_payload ?c) ?d =
      (Inr (PDict ?kvs), (emit (Post AMADEUS_AUTH_URL (token_payload ?c)) ?d)\<lparr>session := []\<rparr>)"
    unfolding post_form_eq by (simp only: post_form_loop_2xx [OF s ok]) (simp add: sample_response_def)
  from get_access_token_cases [of True ?c, THEN conjunct2, THEN conjunct1]
  have "\<exists>res c1. post_form AMADEUS_AUTH_URL (token_payload ?c) ?d = (res, c1)
      \<and> (\<forall>kvs. res = Inr (PDict kvs) \<and> truthy (dict_get kvs ''access_token'') \<longrightarrow>
                 get_access_token True ?c =
                   (Inr (dict_get kvs ''access_token''),
                    c1\<lparr>access_token := dict_get kvs ''access_token''\<rparr>))"
    by simp blast
  then obtain res c1 where
    q: "post_form AMADEUS_AUTH_URL (token_payload ?c) ?d = (res, c1)"
    and g: "\<forall>kvs. res = Inr (PDict kvs) \<and> truthy (dict_get kvs ''access_token'') \<longrightarrow>
                 get_access_token True ?c =
                   (Inr (dict_get kvs ''access_token''),
                    c1\<lparr>access_token := dict_get kvs ''access_token''\<rparr>)"
    by blast
  from p q have "res = Inr (PDict ?kvs)"
    by simp
  with g have "get_access_token True ?c = (Inr (PStr ''t1''), c1\<lparr>access_token := PStr ''t1''\<rparr>)"
    by (simp add: dict_get_def)
  then show "\<exists>c'. get_access_token True ?c = (Inr (PStr ''t1''), c') \<and> access_token c' = PStr ''t1''"
    by simp
next
  let ?kvs = "[(''expires_in'', PInt 1799)]"
  let ?r = "sample_response 200 (PDict ?kvs)"
  let ?c = "sample_client [?r]"
  have "get_access_token True ?c =
      (Inl (MissingAccessToken (PDict ?kvs)),
       (emit (Post AMADEUS_AUTH_URL (token_payload ?c)) (emit (TokenCall True) ?c))\<lparr>session := []\<rparr>)"
    using get_access_token_cases [of True ?c ?r "[]" ?kvs]
    by (simp add: sample_client_def sample_response_def dict_get_def)
  then show "\<exists>c'. get_access_token True ?c = (Inl (MissingAccessToken (PDict ?kvs)), c')
           \<and> access_token c' = PStr ''t0'' \<and> requests (trace c') = 1 \<and> session c' = []"
    by (simp add: sample_client_def requests_def)
qed

lemma requests_simps [simp]:
  "requests [] = 0"
  "requests (evs @ evs') = requests evs + requests evs'"
  "requests (Post u d # evs) = Suc (requests evs)"
  "requests (Get u p h # evs) = Suc (requests evs)"
  "requests (Sleep n # evs) = requests evs"
  "requests (TokenCall b # evs) = requests evs"
  by (simp_all add: requests_def)

















end
